theory Spec2Isabelle
  imports Main "HOL-Library.Word"
begin

section \<open>Constants of gidget\<close>

definition MAX_CONFIG_NAME_LEN :: nat where
  "MAX_CONFIG_NAME_LEN = 256"

definition MAX_LOG_NAME_LEN :: nat where
  "MAX_LOG_NAME_LEN = 256"

definition MAX_PID_NAME_LEN :: nat where
  "MAX_PID_NAME_LEN = 128"

definition DEFAULT_CONFIG_FILE :: string where
  "DEFAULT_CONFIG_FILE = ''/etc/gidget.conf''"

definition DEFAULT_LOG_FILE :: string where
  "DEFAULT_LOG_FILE = ''/var/log/gidget''"

definition DEFAULT_PID_FILE :: string where
  "DEFAULT_PID_FILE = ''/var/run/gidget.pid''"

text \<open>Locals of \<open>main\<close>: \<open>maxScriptLen\<close>, \<open>maxEmailLen\<close> and the one-character strings.\<close>

definition maxScriptLen :: nat where
  "maxScriptLen = 256"

definition maxEmailLen :: nat where
  "maxEmailLen = 36"

definition NUL :: char where
  "NUL = CHR 0x00"

definition newline :: char where
  "newline = CHR 0x0A"

definition space :: char where
  "space = CHR 0x20"

definition apostrophe :: char where
  "apostrophe = CHR 0x27"

definition slash :: char where
  "slash = CHR 0x2F"

definition mungeChar :: string where
  "mungeChar = [CHR ''%'', CHR ''2'', CHR ''7'', NUL]"


section \<open>The C library, as far as gidget calls it\<close>

text \<open>
  \<open>isprint\<close>, \<open>isdigit\<close> and \<open>isspace\<close> in the "C" locale (gidget never calls
  \<open>setlocale\<close>), on the byte value of the character.
\<close>

definition isprint_c :: "char \<Rightarrow> bool" where
  "isprint_c c = (32 \<le> (of_char c :: nat) \<and> (of_char c :: nat) \<le> 126)"

definition isdigit_c :: "char \<Rightarrow> bool" where
  "isdigit_c c = (48 \<le> (of_char c :: nat) \<and> (of_char c :: nat) \<le> 57)"

definition isspace_c :: "char \<Rightarrow> bool" where
  "isspace_c c = ((of_char c :: nat) = 32 \<or> (9 \<le> (of_char c :: nat) \<and> (of_char c :: nat) \<le> 13))"

text \<open>
  \<open>atoi\<close> as the C library of the 64-bit platform the source names defines it,
  \<open>(int) strtol(s, NULL, 10)\<close>: leading white space, an optional sign, the longest run
  of digits, the value clamped to the range of a 64-bit \<open>long\<close>, then cut to the low 32
  bits. \<open>digits_val\<close> is the accumulation loop over the run of digits.
\<close>

fun digits_val :: "nat \<Rightarrow> string \<Rightarrow> nat" where
  "digits_val acc [] = acc"
| "digits_val acc (c # cs) =
     (if isdigit_c c then digits_val (10 * acc + ((of_char c :: nat) - 48)) cs else acc)"

definition strtol10 :: "string \<Rightarrow> int" where
  "strtol10 s =
     (let s1 = dropWhile isspace_c s;
          neg = (case s1 of [] \<Rightarrow> False | c # r \<Rightarrow> c = CHR ''-'');
          s2 = (case s1 of [] \<Rightarrow> [] | c # r \<Rightarrow> if c = CHR ''-'' \<or> c = CHR ''+'' then r else s1);
          v = int (digits_val 0 s2)
      in if neg then max (- (2 ^ 63)) (- v) else min (2 ^ 63 - 1) v)"

definition atoi :: "string \<Rightarrow> 32 word" where
  "atoi s = word_of_int (strtol10 s)"


section \<open>Data model\<close>

text \<open>
  \<open>trick_t\<close>: the four \<open>char *\<close> members are \<open>None\<close> for a null pointer and
  \<open>Some s\<close> for a pointer to the C string \<open>s\<close>. \<open>actions\<close> is the \<open>uint32_t\<close> bitmap.
\<close>

record trick_t =
  watchHandle :: int
  actions :: "32 word"
  fileName :: "string option"
  script :: "string option"
  userid :: "string option"
  mail :: "string option"

record opts_t =
  daemon :: int
  verbose :: int
  log2file :: int
  syslog :: int
  sloglev :: int
  config :: string
  logfile :: string
  pidfile :: string

text \<open>
  The texts handed to \<open>logx\<close> and to \<open>fprintf\<close>, one constructor for each format string
  of the source, with the format's arguments.
\<close>

datatype logmsg =
    InvisibleChar string nat nat   \<comment> \<open>invisible character in file %s line %d position %d\<close>
  | IllegalChar string nat nat     \<comment> \<open>illegal character in file %s line %d position %d\<close>
  | NoNameMax string               \<comment> \<open>Can't determine max file name length for filesystem hosting %s\<close>
  | NameMaxSet int                 \<comment> \<open>Maximum file name length set to %d...\<close>
  | NoMemFileName string nat       \<comment> \<open>Can't allocate memory for file name %s in line %d\<close>
  | NonNumericMask string nat      \<comment> \<open>ERROR: non-numeric event mask in %s line %d field 2\<close>
  | ScriptTooLong string nat       \<comment> \<open>ERROR: script name too long in %s line %d field 3\<close>
  | NoMemScript string nat         \<comment> \<open>Can't allocate memory for script name %s in line %d\<close>
  | UserTooLong string nat         \<comment> \<open>case 4 logs the text of case 3 again\<close>
  | NoMemUser string nat           \<comment> \<open>Can't allocate memory for username %s in line %d\<close>
  | EmailTooLong string nat        \<comment> \<open>Email address too long in %s line %d field 5\<close>
  | NoMemEmail string nat          \<comment> \<open>Can't allocate memory for email address %s in line %d\<close>
  | TooManyFields nat string       \<comment> \<open>TOO MANY FIELDS IN LINE %d - DISCARDING %s!\<close>
  | Discarding string nat          \<comment> \<open>ERROR: discarding %s line %d!\<close>
  | AddWatchFailed int "string option"  \<comment> \<open>ERROR %d: Unable to add watch for %s ...\<close>
  | HeapCorrupt                    \<comment> \<open>FATAL ERROR! Heap corrupt, non-sequential watch descriptor returned from inotify!\<close>
  | AddedWatch "string option" "32 word" int  \<comment> \<open>Added watch %s mask %#.8x handle %d.\<close>
  | NoMemTrick string nat          \<comment> \<open>FATAL ERROR! Unable to allocate additional memory at %s line %d!\<close>
  | NameOverflow                   \<comment> \<open>filesystem object name overflow!\<close>
  | NeedsArgument char             \<comment> \<open>Option -%c requires an argument.\<close>
  | VersionText                    \<comment> \<open>Gidget v%s Goddard & Brooks 2011\<close>
  | UsageText                      \<comment> \<open>the lines of usage()\<close>
  | ConfigNameTooLong              \<comment> \<open>configuration file name too long!\<close>
  | LogNameTooLong                 \<comment> \<open>log file name too long!\<close>
  | PidNameTooLong                 \<comment> \<open>Pid file name too long!\<close>

text \<open>
  What the process has written: the lines on standard output and standard error, and the
  calls of \<open>syslog\<close> with their priority.
\<close>

record world =
  stdout_lines :: "logmsg list"
  stderr_lines :: "logmsg list"
  syslog_lines :: "(int \<times> logmsg) list"

definition world0 :: world where
  "world0 = \<lparr>stdout_lines = [], stderr_lines = [], syslog_lines = []\<rparr>"

text \<open>
  How a piece of the program ends: it goes on (\<open>Running\<close>), it has called \<open>exit\<close> with a
  status (\<open>Exited\<close>), or it has touched memory it does not own (\<open>Fault\<close>: a store through
  a null pointer, a store or a read outside an array).
\<close>

datatype 'a outcome = Running 'a | Exited int 'a | Fault 'a


section \<open>logx\<close>

text \<open>
  \<open>logx\<close> writes the line to standard output when the status is 0 and to standard error
  otherwise, hands it to \<open>syslog\<close> at \<open>opt.sloglev\<close> when \<open>opt.syslog == 1\<close>, and
  exits with the status when it is not 0. (The texts are never empty here, so the
  substitution of a default text does not arise.)
\<close>

definition logx_write :: "int \<Rightarrow> opts_t \<Rightarrow> logmsg \<Rightarrow> world \<Rightarrow> world" where
  "logx_write xstatus opt logtxt w =
     (let w1 = (if xstatus = 0 then w\<lparr>stdout_lines := stdout_lines w @ [logtxt]\<rparr>
                else w\<lparr>stderr_lines := stderr_lines w @ [logtxt]\<rparr>)
      in if syslog opt = 1
         then w1\<lparr>syslog_lines := syslog_lines w1 @ [(sloglev opt, logtxt)]\<rparr>
         else w1)"

definition logx :: "int \<Rightarrow> opts_t \<Rightarrow> logmsg \<Rightarrow> world \<Rightarrow> world outcome" where
  "logx xstatus opt logtxt w =
     (if xstatus = 0 then Running (logx_write xstatus opt logtxt w)
      else Exited xstatus (logx_write xstatus opt logtxt w))"


section \<open>The configuration loader\<close>

text \<open>
  What the loader asks of the system. Every call site is reached at most once for a
  configuration line, so an answer is indexed by the line number:
  \<open>pathconf_name_max p\<close> is \<open>pathconf(p, _PC_NAME_MAX)\<close>;
  \<open>inotify_add_watch n p m\<close> is what the kernel returns for the registration made for
  line \<open>n\<close>; \<open>malloc_ok n k\<close> says whether the allocation of line \<open>n\<close> at site \<open>k\<close>
  succeeds (sites 1, 3, 4, 5: the field of that number; 6: the \<open>realloc\<close> of the table;
  7: the \<open>malloc\<close> of the trick); \<open>maxUidLen\<close> is \<open>sysconf(_SC_LOGIN_NAME_MAX)\<close>.
\<close>

record env =
  pathconf_name_max :: "string \<Rightarrow> int"
  inotify_add_watch :: "nat \<Rightarrow> string option \<Rightarrow> 32 word \<Rightarrow> int"
  malloc_ok :: "nat \<Rightarrow> nat \<Rightarrow> bool"
  maxUidLen :: int

text \<open>The variables of \<open>main\<close> that the load loop reads and writes.\<close>

record loader =
  lineNo :: nat
  trickCount :: nat
  trickHeap :: "trick_t list"
  maxNameLen :: int
  pony :: trick_t
  fieldNo :: nat
  tokenStart :: nat
  badPony :: nat
  out :: world

text \<open>\<open>logx(0, opt, text)\<close> returns; \<open>logx(n, opt, text)\<close> with \<open>n\<close> not 0 exits.\<close>

definition say :: "opts_t \<Rightarrow> logmsg \<Rightarrow> loader \<Rightarrow> loader" where
  "say opt logtxt st = st\<lparr>out := logx_write 0 opt logtxt (out st)\<rparr>"

definition die :: "int \<Rightarrow> opts_t \<Rightarrow> logmsg \<Rightarrow> loader \<Rightarrow> loader outcome" where
  "die xstatus opt logtxt st =
     (case logx xstatus opt logtxt (out st) of
        Running w \<Rightarrow> Running (st\<lparr>out := w\<rparr>)
      | Exited n w \<Rightarrow> Exited n (st\<lparr>out := w\<rparr>)
      | Fault w \<Rightarrow> Fault (st\<lparr>out := w\<rparr>))"

text \<open>
  The \<open>switch (fieldNo)\<close> on the token just cut out of the line. \<open>fieldLen\<close> is the
  length of the token: the scan stops at the first null byte, so the \<open>fieldLen\<close> bytes
  that \<open>strncpy\<close> copies hold none.
\<close>

definition conf_field :: "env \<Rightarrow> opts_t \<Rightarrow> string \<Rightarrow> loader \<Rightarrow> loader outcome" where
  "conf_field e opt confToken st =
     (let fieldLen = length confToken; n = lineNo st; p = pony st in
      if fieldNo st = 1 then
        (let m = pathconf_name_max e confToken in
         if m \<le> 0 then Running ((say opt (NoNameMax confToken) st)\<lparr>badPony := 1\<rparr>)
         else
           (let st1 = (if m > maxNameLen st
                       then (if verbose opt \<noteq> 0
                             then say opt (NameMaxSet m) (st\<lparr>maxNameLen := m\<rparr>)
                             else st\<lparr>maxNameLen := m\<rparr>)
                       else st)
            in if \<not> malloc_ok e n 1
               then Running ((say opt (NoMemFileName confToken n)
                                (st1\<lparr>pony := p\<lparr>fileName := None\<rparr>\<rparr>))\<lparr>badPony := 1\<rparr>)
               else Running (st1\<lparr>pony := p\<lparr>fileName := Some confToken\<rparr>\<rparr>)))
      else if fieldNo st = 2 then
        (let i = length (takeWhile isdigit_c confToken) in
         if i = fieldLen then Running (st\<lparr>pony := p\<lparr>actions := atoi confToken\<rparr>\<rparr>)
         else Running ((say opt (NonNumericMask (config opt) n) st)\<lparr>badPony := 2\<rparr>))
      else if fieldNo st = 3 then
        (if fieldLen > maxScriptLen
         then Running ((say opt (ScriptTooLong (config opt) n) st)\<lparr>badPony := 3\<rparr>)
         else if \<not> malloc_ok e n 3
         then Running ((say opt (NoMemScript confToken n)
                          (st\<lparr>pony := p\<lparr>script := None\<rparr>\<rparr>))\<lparr>badPony := 3\<rparr>)
         else Running (st\<lparr>pony := p\<lparr>script := Some confToken\<rparr>\<rparr>))
      else if fieldNo st = 4 then
        (if int fieldLen > maxUidLen e
         then Running ((say opt (UserTooLong (config opt) n) st)\<lparr>badPony := 4\<rparr>)
         else if \<not> malloc_ok e n 4
         then Running ((say opt (NoMemUser confToken n)
                          (st\<lparr>pony := p\<lparr>userid := None\<rparr>\<rparr>))\<lparr>badPony := 4\<rparr>)
         else Running (st\<lparr>pony := p\<lparr>userid := Some confToken\<rparr>\<rparr>))
      else if fieldNo st = 5 then
        (if fieldLen > maxEmailLen
         then Running ((say opt (EmailTooLong (config opt) n) st)\<lparr>badPony := 7\<rparr>)
         else if script p = None
         then Running ((say opt (NoMemEmail confToken n)
                          (st\<lparr>pony := p\<lparr>mail := (if malloc_ok e n 5 then Some [] else None)\<rparr>\<rparr>))
                       \<lparr>badPony := 8\<rparr>)
         else if \<not> malloc_ok e n 5
         then Fault (st\<lparr>pony := p\<lparr>mail := None\<rparr>\<rparr>)
         else Running (st\<lparr>pony := p\<lparr>mail := Some confToken\<rparr>\<rparr>))
      else Running (say opt (TooManyFields n confToken) st))"

text \<open>
  The two character tests at the head of the \<open>for\<close> body, on the character \<open>c\<close> at
  position \<open>recordLen\<close>: an invisible character other than the newline, and an
  apostrophe, are reported and mark the pony bad.
\<close>

definition check_char :: "opts_t \<Rightarrow> nat \<Rightarrow> char \<Rightarrow> loader \<Rightarrow> loader" where
  "check_char opt recordLen c st =
     (if \<not> isprint_c c
      then (if c \<noteq> newline
            then (say opt (InvisibleChar (config opt) (lineNo st) (recordLen + 1)) st)
                   \<lparr>badPony := 1\<rparr>
            else st)
      else (if c = apostrophe
            then (say opt (IllegalChar (config opt) (lineNo st) (recordLen + 1)) st)
                   \<lparr>badPony := 1\<rparr>
            else st))"

text \<open>
  A field delimiter at position \<open>recordLen\<close>: count the field, cut the token
  \<open>confLine[tokenStart .. recordLen)\<close> and run the \<open>switch\<close> on it.
\<close>

definition field_end :: "env \<Rightarrow> opts_t \<Rightarrow> string \<Rightarrow> nat \<Rightarrow> loader \<Rightarrow> loader outcome" where
  "field_end e opt confLine recordLen st =
     (let st2 = st\<lparr>fieldNo := fieldNo st + 1\<rparr>;
          fieldLen = recordLen - tokenStart st2;
          confToken = take fieldLen (drop (tokenStart st2) confLine)
      in conf_field e opt confToken st2)"

text \<open>
  The \<open>for\<close> loop over the characters of \<open>confLine\<close>, from position \<open>recordLen\<close>
  on; the fifth argument is the rest of the line from that position (the line itself at
  the first call), and its end is the null byte that ends the C string. The loop stops
  at a null byte or a \<open>#\<close>; a \<open>:\<close> or a newline ends a field.
\<close>

fun scan :: "env \<Rightarrow> opts_t \<Rightarrow> string \<Rightarrow> nat \<Rightarrow> string \<Rightarrow> loader \<Rightarrow> loader outcome" where
  "scan e opt confLine recordLen [] st = Running st"
| "scan e opt confLine recordLen (c # cs) st =
     (if c = NUL \<or> c = CHR ''#'' then Running st
      else if c = CHR '':'' \<or> c = newline
      then (case field_end e opt confLine recordLen (check_char opt recordLen c st) of
              Running st3 \<Rightarrow>
                scan e opt confLine (recordLen + 1) cs (st3\<lparr>tokenStart := recordLen + 1\<rparr>)
            | Exited n st3 \<Rightarrow> Exited n st3
            | Fault st3 \<Rightarrow> Fault st3)
      else scan e opt confLine (recordLen + 1) cs (check_char opt recordLen c st))"

text \<open>
  Registration of the pony, given the descriptor \<open>wd\<close> that \<open>inotify_add_watch\<close>
  returned: a negative one discards the line, one that is not \<open>trickCount + 1\<close> is fatal
  (\<open>logx(2, ...)\<close>), otherwise the table grows by the pony.
\<close>

definition add_trick :: "env \<Rightarrow> opts_t \<Rightarrow> int \<Rightarrow> loader \<Rightarrow> loader outcome" where
  "add_trick e opt wd st =
     (let st1 = st\<lparr>pony := (pony st)\<lparr>watchHandle := wd\<rparr>\<rparr> in
      if wd < 0
      then Running (say opt (Discarding (config opt) (lineNo st1))
                      (say opt (AddWatchFailed wd (fileName (pony st1))) st1))
      else if wd \<noteq> int (trickCount st1) + 1 then die 2 opt HeapCorrupt st1
      else
        (let st2 = (if verbose opt \<noteq> 0
                    then say opt (AddedWatch (fileName (pony st1)) (actions (pony st1)) wd) st1
                    else st1)
         in if \<not> malloc_ok e (lineNo st2) 6
            then die 3 opt (NoMemTrick (config opt) (lineNo st2)) st2
            else if \<not> malloc_ok e (lineNo st2) 7
            then die 4 opt (NoMemTrick (config opt) (lineNo st2)) st2
            else Running (st2\<lparr>trickHeap := trickHeap st2 @ [pony st2],
                              trickCount := trickCount st2 + 1\<rparr>)))"

text \<open>One pass of the \<open>while (fgets(...))\<close> body, on the line \<open>fgets\<close> delivered.\<close>

definition conf_line :: "env \<Rightarrow> opts_t \<Rightarrow> string \<Rightarrow> loader \<Rightarrow> loader outcome" where
  "conf_line e opt confLine st =
     (case scan e opt confLine 0 confLine
             (st\<lparr>lineNo := lineNo st + 1, fieldNo := 0, tokenStart := 0, badPony := 0\<rparr>) of
        Running st1 \<Rightarrow>
          (if fieldNo st1 \<noteq> 0
           then (if badPony st1 \<noteq> 0 \<or> fieldNo st1 < 5
                 then Running (say opt (Discarding (config opt) (lineNo st1)) st1)
                 else add_trick e opt
                        (inotify_add_watch e (lineNo st1) (fileName (pony st1)) (actions (pony st1)))
                        st1)
           else Running st1)
      | Exited n st1 \<Rightarrow> Exited n st1
      | Fault st1 \<Rightarrow> Fault st1)"

text \<open>The load loop over the lines of the configuration file, in order.\<close>

fun load_lines :: "env \<Rightarrow> opts_t \<Rightarrow> string list \<Rightarrow> loader \<Rightarrow> loader outcome" where
  "load_lines e opt [] st = Running st"
| "load_lines e opt (l # ls) st =
     (case conf_line e opt l st of
        Running st1 \<Rightarrow> load_lines e opt ls st1
      | Exited n st1 \<Rightarrow> Exited n st1
      | Fault st1 \<Rightarrow> Fault st1)"

text \<open>
  The loader's variables before the first line. The pony is not initialised by the
  source, so its content is a parameter, as is what has been logged so far.
\<close>

definition loader0 :: "trick_t \<Rightarrow> world \<Rightarrow> loader" where
  "loader0 p w = \<lparr>lineNo = 0, trickCount = 0, trickHeap = [], maxNameLen = 0, pony = p,
                  fieldNo = 0, tokenStart = 0, badPony = 0, out = w\<rparr>"



section \<open>The worker: assembling the name of the triggering object\<close>

text \<open>
  \<open>struct inotify_event\<close> as the worker reads it from the head of the read buffer.
  \<open>name\<close> holds the bytes of the buffer that follow the event header; the event's own
  name field is the first \<open>len\<close> of them.
\<close>

record event_t =
  wd :: int
  mask_e :: "32 word"
  cookie :: "32 word"
  len :: "32 word"
  name :: string


text \<open>
  The state of the assembly: \<open>terminus\<close>, the stores made into \<open>fileOrFolder\<close> so far
  (index and byte, oldest first), and what the worker has logged. The array
  \<open>fileOrFolder\<close> has \<open>maxNameLen\<close> bytes and is not initialised.
\<close>

record asm =
  terminus :: nat
  stores :: "(nat \<times> char) list"
  wout :: world

definition store :: "char \<Rightarrow> asm \<Rightarrow> asm" where
  "store c a = a\<lparr>stores := stores a @ [(terminus a, c)]\<rparr>"

text \<open>\<open>fileOrFolder[terminus++] = c\<close>\<close>

definition put_char :: "char \<Rightarrow> asm \<Rightarrow> asm" where
  "put_char c a = (store c a)\<lparr>terminus := terminus a + 1\<rparr>"

text \<open>
  \<open>q = &fileOrFolder[terminus]; while ((*q++ = *p++) != '\0') terminus++;\<close> on the C
  string at \<open>p\<close>: every byte is stored, the terminating null byte too, and \<open>terminus\<close>
  counts the bytes before it.
\<close>

fun copy_in :: "string \<Rightarrow> asm \<Rightarrow> asm" where
  "copy_in [] a = store NUL a"
| "copy_in (c # cs) a = (if c = NUL then store NUL a else copy_in cs (put_char c a))"

definition asm_die :: "int \<Rightarrow> opts_t \<Rightarrow> logmsg \<Rightarrow> asm \<Rightarrow> asm outcome" where
  "asm_die xstatus opt logtxt a =
     (case logx xstatus opt logtxt (wout a) of
        Running w \<Rightarrow> Running (a\<lparr>wout := w\<rparr>)
      | Exited n w \<Rightarrow> Exited n (a\<lparr>wout := w\<rparr>)
      | Fault w \<Rightarrow> Fault (a\<lparr>wout := w\<rparr>))"

text \<open>
  \<open>for (i = 0; (i <= event->len) && (event->name[i] != '\0'); i++)\<close>, from index \<open>i\<close>
  on; the fifth argument holds the bytes \<open>name[i], name[i+1], ...\<close>, and reading past
  them is reading past the read buffer. \<open>mx\<close> is \<open>maxNameLen\<close>, \<open>n\<close> is \<open>event->len\<close>.
\<close>

fun munge_loop :: "opts_t \<Rightarrow> int \<Rightarrow> nat \<Rightarrow> nat \<Rightarrow> string \<Rightarrow> asm \<Rightarrow> asm outcome" where
  "munge_loop opt mx n i [] a = (if i \<le> n then Fault a else Running a)"
| "munge_loop opt mx n i (c # cs) a =
     (if i \<le> n \<and> c \<noteq> NUL
      then (let a1 = (if c = apostrophe then copy_in mungeChar a else put_char c a)
            in if int (terminus a1) > mx
               then asm_die 13 opt NameOverflow a1
               else munge_loop opt mx n (i + 1) cs a1)
      else Running a)"

definition assemble :: "opts_t \<Rightarrow> int \<Rightarrow> trick_t \<Rightarrow> event_t \<Rightarrow> world \<Rightarrow> asm outcome" where
  "assemble opt mx p ev w =
     (case fileName p of
        None \<Rightarrow> Fault \<lparr>terminus = 0, stores = [], wout = w\<rparr>
      | Some path \<Rightarrow>
          munge_loop opt mx (unat (len ev)) 0 (name ev)
            (put_char slash (copy_in path \<lparr>terminus = 0, stores = [], wout = w\<rparr>)))"

text \<open>
  The memory of \<open>fileOrFolder\<close> after the stores, from its content \<open>m\<close> before them
  (the array is not initialised, so \<open>m\<close> is arbitrary).
\<close>

definition mem_after :: "(nat \<Rightarrow> char) \<Rightarrow> (nat \<times> char) list \<Rightarrow> nat \<Rightarrow> char" where
  "mem_after m ws = foldl (\<lambda>f iv. f(fst iv := snd iv)) m ws"

text \<open>
  \<open>fileOrFolder\<close> as the worker uses it after the assembly (\<open>strlen\<close>, \<open>strcat\<close>,
  \<open>%s\<close>): the C string in the array of \<open>n\<close> bytes whose content is \<open>mem\<close>, that is
  the bytes before the first null byte. \<open>None\<close> when the array holds no null byte: the
  read then runs past the array.
\<close>

definition fileOrFolder_string :: "(nat \<Rightarrow> char) \<Rightarrow> nat \<Rightarrow> string option" where
  "fileOrFolder_string mem n =
     (if NUL \<in> set (map mem [0..<n])
      then Some (takeWhile (\<lambda>c. c \<noteq> NUL) (map mem [0..<n]))
      else None)"

text \<open>
  An auxiliary notion for the proofs: the bytes at the indices below \<open>terminus\<close>. The
  worker never reads the array through \<open>terminus\<close>; what it reads is
  \<open>fileOrFolder_string\<close>.
\<close>

definition below_terminus :: "(nat \<Rightarrow> char) \<Rightarrow> asm \<Rightarrow> string" where
  "below_terminus m a = map (mem_after m (stores a)) [0..<terminus a]"


text \<open>Every store of the assembly lies inside the \<open>mx\<close> bytes of the array.\<close>

definition in_buffer :: "int \<Rightarrow> asm \<Rightarrow> bool" where
  "in_buffer mx a = list_all (\<lambda>iv. int (fst iv) < mx) (stores a)"


section \<open>The worker: mailing the output of the script\<close>

text \<open>\<open>%d\<close> of \<open>printf\<close>.\<close>

function show_nat :: "nat \<Rightarrow> string" where
  "show_nat n =
     (if n < 10 then [char_of (48 + n)]
      else show_nat (n div 10) @ [char_of (48 + n mod 10)])"
  by pat_completeness auto
termination
  by (relation "measure id") auto

declare show_nat.simps [simp del]

definition show_int :: "int \<Rightarrow> string" where
  "show_int i = (if i < 0 then CHR ''-'' # show_nat (nat (- i)) else show_nat (nat i))"

text \<open>\<open>%s\<close> of \<open>printf\<close> on a \<open>char *\<close>; the C library prints a null pointer as \<open>(null)\<close>.\<close>

definition cstr :: "string option \<Rightarrow> string" where
  "cstr p = (case p of None \<Rightarrow> ''(null)'' | Some s \<Rightarrow> s)"

text \<open>The \<open>fprintf\<close> calls that write the mail headers and the first lines of the body.\<close>

definition mail_headers ::
  "trick_t \<Rightarrow> string \<Rightarrow> string \<Rightarrow> event_t \<Rightarrow> string \<Rightarrow> string \<Rightarrow> string" where
  "mail_headers p fileOrFolder mailTime ev shell command =
     ''From: '' @ cstr (userid p) @ '' (gidget)'' @ [newline] @
     ''To: '' @ cstr (mail p) @ [newline] @
     ''Subject: gidget event: '' @ fileOrFolder @ [newline] @
     ''Date: '' @ mailTime @ [newline] @
     ''Auto-Submitted: auto-generated'' @ [newline] @
     ''X-gidget-object: '' @ fileOrFolder @ [newline] @
     ''X-gidget-watch: '' @ show_int (wd ev) @ [newline] @
     ''X-gidget-mask: '' @ show_int (sint (mask_e ev)) @ [newline, newline] @
     shell @ '' -c '' @ command @ '':'' @ [newline, newline]"

text \<open>
  What the worker did with the mail transport: the calls of \<open>popen\<close>, the bytes written
  to \<open>mailslot\<close>, and \<open>bytesMailed\<close>.
\<close>

record mailer =
  popen_calls :: nat
  mailslot :: string
  bytesMailed :: nat

text \<open>\<open>while ((ch = getc(fromPipe)) != EOF) { bytesMailed++; putc(ch, mailslot); }\<close>\<close>

fun drain :: "string \<Rightarrow> mailer \<Rightarrow> mailer" where
  "drain [] m = m"
| "drain (ch # rest) m =
     drain rest (m\<lparr>bytesMailed := bytesMailed m + 1, mailslot := mailslot m @ [ch]\<rparr>)"

text \<open>
  The branch \<open>pid > 0\<close> up to \<open>pclose\<close>. \<open>fromPipe\<close> is every byte the grandchild writes
  to the pipe before it closes it, so \<open>getc\<close> returns \<open>EOF\<close> at the end of the list;
  \<open>popen_ok\<close> says whether \<open>popen(MAILCOMMAND, "w")\<close> returns a stream.
\<close>

definition emit_mail :: "bool \<Rightarrow> string \<Rightarrow> string \<Rightarrow> mailer" where
  "emit_mail popen_ok headers fromPipe =
     (case fromPipe of
        [] \<Rightarrow> \<lparr>popen_calls = 0, mailslot = [], bytesMailed = 0\<rparr>
      | ch # rest \<Rightarrow>
          (if popen_ok
           then drain rest \<lparr>popen_calls = 1, mailslot = headers @ [ch], bytesMailed = 0\<rparr>
           else \<lparr>popen_calls = 1, mailslot = [], bytesMailed = 0\<rparr>))"



section \<open>Command line options\<close>

text \<open>
  \<open>getopt(argc, argv, ":dVvc:l:p:s:")\<close> of the C library, for this option string. One
  value stands for each return of \<open>getopt\<close>: \<open>Flag c\<close> returns the option \<open>c\<close> that
  takes no argument, \<open>WithArg c a\<close> returns \<open>c\<close> with \<open>optarg = a\<close>, \<open>Colon c\<close> returns
  \<open>':'\<close> with \<open>optopt = c\<close> (the argument of \<open>c\<close> is missing: the option string
  begins with a colon), \<open>Question c\<close> returns \<open>'?'\<close> with \<open>optopt = c\<close> (\<open>c\<close> is not an
  option).
\<close>

datatype getopt_ret = Flag char | WithArg char string | Colon char | Question char

definition is_option :: "char \<Rightarrow> bool" where
  "is_option c = (c \<in> set ''dVvclps'')"

definition takes_arg :: "char \<Rightarrow> bool" where
  "takes_arg c = (c \<in> set ''clps'')"

text \<open>
  The option characters of one element of \<open>argv\<close>, after its \<open>-\<close>. \<open>nxt\<close> is the
  element that follows, if there is one; the result says whether it was taken as an
  argument. An option that takes an argument takes the rest of its own element when
  there is one, the next element otherwise.
\<close>

fun cluster :: "string \<Rightarrow> string option \<Rightarrow> getopt_ret list \<times> bool" where
  "cluster [] nxt = ([], False)"
| "cluster (c # cs) nxt =
     (if \<not> is_option c then (Question c # fst (cluster cs nxt), snd (cluster cs nxt))
      else if takes_arg c
      then (if cs \<noteq> [] then ([WithArg c cs], False)
            else (case nxt of None \<Rightarrow> ([Colon c], False) | Some a \<Rightarrow> ([WithArg c a], True)))
      else (Flag c # fst (cluster cs nxt), snd (cluster cs nxt)))"

text \<open>
  All returns of \<open>getopt\<close> over \<open>argv[1..]\<close>, in order, and the elements that are not
  options, in order (the C library moves them behind the options, where \<open>optind\<close> then
  points). \<open>--\<close> ends the options; a lone \<open>-\<close> is not an option.
\<close>

fun getopt_all :: "string list \<Rightarrow> getopt_ret list \<times> string list" where
  "getopt_all [] = ([], [])"
| "getopt_all (a # as) =
     (if a = ''--'' then ([], as)
      else if 2 \<le> length a \<and> hd a = CHR ''-''
      then (let r = cluster (tl a) (case as of [] \<Rightarrow> None | b # bs \<Rightarrow> Some b);
                more = getopt_all (if snd r then tl as else as)
            in (fst r @ fst more, snd more))
      else (let more = getopt_all as in (fst more, a # snd more)))"

text \<open>
  \<open>strcpy(dst, s)\<close> stores the bytes of \<open>s\<close> and the terminating null byte at the indices
  \<open>0 .. strlen(s)\<close> of \<open>dst\<close>; \<open>fits cap\<close> says that all of them lie inside an array
  of \<open>cap\<close> bytes.
\<close>

definition strcpy_stores :: "string \<Rightarrow> (nat \<times> char) list" where
  "strcpy_stores s = zip [0..<length s + 1] (s @ [NUL])"

definition fits :: "nat \<Rightarrow> (nat \<times> char) list \<Rightarrow> bool" where
  "fits cap ws = list_all (\<lambda>iv. fst iv < cap) ws"

text \<open>The options so far and what \<open>gig_opts\<close> has printed.\<close>

record gig =
  go :: opts_t
  gw :: world

definition usage :: "bool \<Rightarrow> gig \<Rightarrow> gig outcome" where
  "usage to_stderr g =
     Exited 1 (g\<lparr>gw := (if to_stderr
                          then (gw g)\<lparr>stderr_lines := stderr_lines (gw g) @ [UsageText]\<rparr>
                          else (gw g)\<lparr>stdout_lines := stdout_lines (gw g) @ [UsageText]\<rparr>)\<rparr>)"

definition complain :: "logmsg \<Rightarrow> gig \<Rightarrow> gig" where
  "complain m g = g\<lparr>gw := (gw g)\<lparr>stderr_lines := stderr_lines (gw g) @ [m]\<rparr>\<rparr>"

text \<open>
  The guarded copy of a file name into one of the arrays of \<open>opts_t\<close>, of \<open>cap\<close> bytes:
  \<open>if (strlen(a) > cap) { fprintf(stderr, ...); exit(1); } strcpy(dst, a);\<close>. A copy
  that stores outside the array is a fault.
\<close>

definition guarded_copy ::
  "nat \<Rightarrow> logmsg \<Rightarrow> string \<Rightarrow> (string \<Rightarrow> gig \<Rightarrow> gig) \<Rightarrow> gig \<Rightarrow> gig outcome" where
  "guarded_copy cap too_long a set_field g =
     (if length a > cap then Exited 1 (complain too_long g)
      else if fits cap (strcpy_stores a) then Running (set_field a g)
      else Fault g)"

text \<open>The body of the \<open>switch (o)\<close> for one return of \<open>getopt\<close>.\<close>

definition gig_case :: "getopt_ret \<Rightarrow> gig \<Rightarrow> gig outcome" where
  "gig_case r g =
     (case r of
        Colon c \<Rightarrow>
          (if c = CHR ''s'' then Running (g\<lparr>go := (go g)\<lparr>sloglev := 3\<rparr>\<rparr>)
           else Running (complain (NeedsArgument c) g))
      | Question c \<Rightarrow> usage False g
      | Flag c \<Rightarrow>
          (if c = CHR ''d'' then Running (g\<lparr>go := (go g)\<lparr>daemon := 1, log2file := 1\<rparr>\<rparr>)
           else if c = CHR ''V''
           then Exited 0 (g\<lparr>gw := (gw g)\<lparr>stdout_lines := stdout_lines (gw g) @ [VersionText]\<rparr>\<rparr>)
           else if c = CHR ''v'' then Running (g\<lparr>go := (go g)\<lparr>verbose := 1\<rparr>\<rparr>)
           else usage True g)
      | WithArg c a \<Rightarrow>
          (if c = CHR ''c''
           then guarded_copy MAX_CONFIG_NAME_LEN ConfigNameTooLong a
                  (\<lambda>v h. h\<lparr>go := (go h)\<lparr>config := v\<rparr>\<rparr>) g
           else if c = CHR ''l''
           then guarded_copy MAX_LOG_NAME_LEN LogNameTooLong a
                  (\<lambda>v h. h\<lparr>go := (go h)\<lparr>logfile := v, log2file := 1\<rparr>\<rparr>) g
           else if c = CHR ''p''
           then guarded_copy MAX_PID_NAME_LEN PidNameTooLong a
                  (\<lambda>v h. h\<lparr>go := (go h)\<lparr>pidfile := v\<rparr>\<rparr>) g
           else if c = CHR ''s''
           then (let lev = (if length a = 1 \<and> isdigit_c (hd a) then sint (atoi a) else - 1);
                     g1 = g\<lparr>go := (go g)\<lparr>sloglev := lev\<rparr>\<rparr>
                 in if lev > 7 \<or> lev < 0 then usage True g1
                    else Running (g1\<lparr>go := (go g1)\<lparr>syslog := 1\<rparr>\<rparr>))
           else usage True g))"

text \<open>\<open>while ((o = getopt(...)) != -1) switch (o) ...\<close>\<close>

fun gig_loop :: "getopt_ret list \<Rightarrow> gig \<Rightarrow> gig outcome" where
  "gig_loop [] g = Running g"
| "gig_loop (r # rs) g =
     (case gig_case r g of
        Running g1 \<Rightarrow> gig_loop rs g1
      | Exited n g1 \<Rightarrow> Exited n g1
      | Fault g1 \<Rightarrow> Fault g1)"

text \<open>The configuration file named without \<open>-c\<close>, and the test for anything after it.\<close>

definition positional :: "string list \<Rightarrow> gig \<Rightarrow> gig outcome" where
  "positional pos g =
     (case pos of
        [] \<Rightarrow> Running g
      | a # rest \<Rightarrow>
          (case guarded_copy MAX_CONFIG_NAME_LEN ConfigNameTooLong a
                  (\<lambda>v h. h\<lparr>go := (go h)\<lparr>config := v\<rparr>\<rparr>) g of
             Running g1 \<Rightarrow> (if rest \<noteq> [] then usage True g1 else Running g1)
           | Exited n g1 \<Rightarrow> Exited n g1
           | Fault g1 \<Rightarrow> Fault g1))"

definition gig0 :: gig where
  "gig0 = \<lparr>go = \<lparr>daemon = 0, verbose = 0, log2file = 0, syslog = 0, sloglev = 0,
                 config = DEFAULT_CONFIG_FILE, logfile = DEFAULT_LOG_FILE,
                 pidfile = DEFAULT_PID_FILE\<rparr>,
            gw = world0\<rparr>"

text \<open>\<open>gig_opts(argc, argv)\<close> on \<open>args = argv[1 .. argc)\<close>.\<close>

definition gig_opts :: "string list \<Rightarrow> gig outcome" where
  "gig_opts args =
     (case gig_loop (fst (getopt_all args)) gig0 of
        Running g \<Rightarrow> positional (snd (getopt_all args)) g
      | Exited n g \<Rightarrow> Exited n g
      | Fault g \<Rightarrow> Fault g)"



section \<open>Notions used in the properties\<close>

text \<open>
  The table is indexed by watch descriptor: its length is \<open>trickCount\<close> and the trick at
  position \<open>i\<close> carries the descriptor \<open>i + 1\<close>.
\<close>

definition seq_ok :: "loader \<Rightarrow> bool" where
  "seq_ok st = (trickCount st = length (trickHeap st) \<and>
     list_all (\<lambda>i. watchHandle (trickHeap st ! i) = int i + 1) [0..<length (trickHeap st)])"

text \<open>
  What processing within one line leaves alone: the line number, the table, standard
  error; a pony once marked bad stays bad; standard output only grows.
\<close>

definition frame :: "loader \<Rightarrow> loader \<Rightarrow> bool" where
  "frame st st' =
     (lineNo st' = lineNo st \<and> trickCount st' = trickCount st \<and> trickHeap st' = trickHeap st \<and>
      (if badPony st \<noteq> 0 then badPony st' \<noteq> 0 else True) \<and>
      (\<exists>more. stdout_lines (out st') = stdout_lines (out st) @ more) \<and>
      stderr_lines (out st') = stderr_lines (out st))"

text \<open>The loader's variables as a new line is taken up.\<close>

definition next_line :: "loader \<Rightarrow> loader" where
  "next_line st = st\<lparr>lineNo := lineNo st + 1, fieldNo := 0, tokenStart := 0, badPony := 0\<rparr>"

text \<open>Inputs for the examples.\<close>

definition opt_quiet :: opts_t where
  "opt_quiet = \<lparr>daemon = 0, verbose = 0, log2file = 0, syslog = 0, sloglev = 0,
                 config = ''gidget.conf'', logfile = DEFAULT_LOG_FILE,
                 pidfile = DEFAULT_PID_FILE\<rparr>"

definition pony_null :: trick_t where
  "pony_null = \<lparr>watchHandle = 0, actions = 0, fileName = None, script = None,
                 userid = None, mail = None\<rparr>"

text \<open>
  A system where every path has names of up to 255 bytes, every allocation succeeds and
  the kernel answers the registration of line \<open>n\<close> with descriptor \<open>n\<close>; and one whose
  kernel answers every registration with descriptor 7.
\<close>

definition env_seq :: env where
  "env_seq = \<lparr>pathconf_name_max = (\<lambda>p. 255), inotify_add_watch = (\<lambda>n p m. int n),
               malloc_ok = (\<lambda>n k. True), maxUidLen = 32\<rparr>"

definition env_seven :: env where
  "env_seven = \<lparr>pathconf_name_max = (\<lambda>p. 255), inotify_add_watch = (\<lambda>n p m. 7),
                 malloc_ok = (\<lambda>n k. True), maxUidLen = 32\<rparr>"

definition line_a :: string where
  "line_a = ''/a:8:/s:u:m'' @ [newline]"

definition line_b :: string where
  "line_b = ''/b:2:/s:u:m'' @ [newline]"

text \<open>The variables at the end of a piece of the program, however it ended.\<close>

fun state_of :: "'a outcome \<Rightarrow> 'a" where
  "state_of (Running s) = s"
| "state_of (Exited n s) = s"
| "state_of (Fault s) = s"

text \<open>
  The part of a line the loader reads, up to the first \<open>#\<close> or null byte, and the number
  of fields in it as the loader counts them: one for each \<open>:\<close> and each newline.
\<close>

definition record_part :: "string \<Rightarrow> string" where
  "record_part l = takeWhile (\<lambda>c. c \<noteq> NUL \<and> c \<noteq> CHR ''#'') l"

definition is_delim :: "char \<Rightarrow> bool" where
  "is_delim c = (c = CHR '':'' \<or> c = newline)"

definition field_count :: "string \<Rightarrow> nat" where
  "field_count l = length (filter is_delim (record_part l))"

text \<open>Text of a field: no delimiter, no \<open>#\<close>, no null byte.\<close>

definition plain :: "string \<Rightarrow> bool" where
  "plain s = list_all (\<lambda>c. c \<noteq> NUL \<and> c \<noteq> CHR ''#'' \<and> c \<noteq> CHR '':'' \<and> c \<noteq> newline) s"



text \<open>The decimal value of a string of digits.\<close>

definition dec_value :: "string \<Rightarrow> nat" where
  "dec_value s = foldl (\<lambda>v c. 10 * v + ((of_char c :: nat) - 48)) 0 s"





definition line_zero :: string where
  "line_zero = ''/a:0:/s:u:m'' @ [newline]"

definition line_nomask :: string where
  "line_nomask = ''/a::/s:u:m'' @ [newline]"

definition env_einval :: env where
  "env_einval = \<lparr>pathconf_name_max = (\<lambda>p. 255),
                  inotify_add_watch = (\<lambda>n p m. if m = 0 then - 1 else int n),
                  malloc_ok = (\<lambda>n k. True), maxUidLen = 32\<rparr>"


text \<open>
  Munging as the specification words it: every apostrophe is rewritten to the three
  characters \<open>%27\<close>, every other byte stays, in order.
\<close>

definition munge_spec :: "string \<Rightarrow> string" where
  "munge_spec s = concat (map (\<lambda>c. if c = apostrophe then ''%27'' else [c]) s)"


text \<open>Tricks and events for the examples.\<close>

definition trick_tmp :: trick_t where
  "trick_tmp = \<lparr>watchHandle = 1, actions = 256, fileName = Some ''/tmp'',
                 script = Some ''/s'', userid = Some ''u'', mail = Some ''m''\<rparr>"

definition trick_d :: trick_t where
  "trick_d = \<lparr>watchHandle = 1, actions = 256, fileName = Some ''/d'',
               script = Some ''/s'', userid = Some ''u'', mail = Some ''m''\<rparr>"

definition trick_long :: trick_t where
  "trick_long = \<lparr>watchHandle = 1, actions = 2, fileName = Some (replicate 255 (CHR ''a'')),
                  script = Some ''/s'', userid = Some ''u'', mail = Some ''m''\<rparr>"

text \<open>
  A file named \<open>it's\<close>, a file named \<open>%27\<close>, a file whose name of nine bytes ends in an
  apostrophe, a file named \<open>q'\<close>, and an event on the watched object itself (no name; the byte after the
  header is null).
\<close>

definition ev_its :: event_t where
  "ev_its = \<lparr>wd = 1, mask_e = 256, cookie = 0, len = 16,
              name = ''it'' @ [apostrophe] @ ''s'' @ replicate 12 NUL\<rparr>"


definition ev_nine :: event_t where
  "ev_nine = \<lparr>wd = 1, mask_e = 256, cookie = 0, len = 16,
               name = ''12345678'' @ [apostrophe] @ replicate 7 NUL\<rparr>"


definition ev_self :: event_t where
  "ev_self = \<lparr>wd = 1, mask_e = 2, cookie = 0, len = 0, name = [NUL]\<rparr>"


section \<open>Properties of the configuration loader\<close>

lemma logx_write_sel:
  "stdout_lines (logx_write n opt m w) = (if n = 0 then stdout_lines w @ [m] else stdout_lines w)"
  "stderr_lines (logx_write n opt m w) = (if n = 0 then stderr_lines w else stderr_lines w @ [m])"
  "syslog_lines (logx_write n opt m w) =
     (if syslog opt = 1 then syslog_lines w @ [(sloglev opt, m)] else syslog_lines w)"
  by (simp_all add: logx_write_def Let_def)

lemma say_sel [simp]:
  "lineNo (say opt m st) = lineNo st"
  "trickCount (say opt m st) = trickCount st"
  "trickHeap (say opt m st) = trickHeap st"
  "maxNameLen (say opt m st) = maxNameLen st"
  "pony (say opt m st) = pony st"
  "fieldNo (say opt m st) = fieldNo st"
  "tokenStart (say opt m st) = tokenStart st"
  "badPony (say opt m st) = badPony st"
  "stdout_lines (out (say opt m st)) = stdout_lines (out st) @ [m]"
  "stderr_lines (out (say opt m st)) = stderr_lines (out st)"
  by (simp_all add: say_def logx_write_def Let_def)

lemma frame_refl: "frame st st"
  by (simp add: frame_def)

lemma frame_trans: "frame a b \<Longrightarrow> frame b c \<Longrightarrow> frame a c"
  by (auto simp: frame_def split: if_splits)

lemma conf_field_frame:
  "conf_field e opt tok st = r \<Longrightarrow>
     \<exists>st'. (r = Running st' \<or> r = Fault st') \<and> frame st st' \<and>
           fieldNo st' = fieldNo st \<and> tokenStart st' = tokenStart st"
  unfolding conf_field_def Let_def
  by (auto simp: frame_def split: if_splits)


lemma check_char_frame: "frame st (check_char opt k c st)"
  by (simp add: check_char_def frame_def)

lemma check_char_sel [simp]:
  "fieldNo (check_char opt k c st) = fieldNo st"
  "tokenStart (check_char opt k c st) = tokenStart st"
  "pony (check_char opt k c st) = pony st"
  "maxNameLen (check_char opt k c st) = maxNameLen st"
  "lineNo (check_char opt k c st) = lineNo st"
  "trickHeap (check_char opt k c st) = trickHeap st"
  "trickCount (check_char opt k c st) = trickCount st"
  by (simp_all add: check_char_def)

lemma field_end_frame:
  "field_end e opt L k st = r \<Longrightarrow>
     \<exists>st'. (r = Running st' \<or> r = Fault st') \<and> frame st st' \<and>
           fieldNo st' = fieldNo st + 1 \<and> tokenStart st' = tokenStart st"
  unfolding field_end_def Let_def
  by (drule conf_field_frame) (auto simp: frame_def)

lemma scan_stop: "c = NUL \<or> c = CHR ''#'' \<Longrightarrow> scan e opt L k (c # cs) st = Running st"
  by simp

lemma scan_delim:
  "is_delim c \<Longrightarrow>
   scan e opt L k (c # cs) st =
     (case field_end e opt L k (check_char opt k c st) of
        Running st3 \<Rightarrow> scan e opt L (k + 1) cs (st3\<lparr>tokenStart := k + 1\<rparr>)
      | Exited n st3 \<Rightarrow> Exited n st3
      | Fault st3 \<Rightarrow> Fault st3)"
  by (auto simp: is_delim_def NUL_def newline_def)

lemma scan_other:
  "\<not> is_delim c \<Longrightarrow> c \<noteq> NUL \<Longrightarrow> c \<noteq> CHR ''#'' \<Longrightarrow>
   scan e opt L k (c # cs) st = scan e opt L (k + 1) cs (check_char opt k c st)"
  by (auto simp: is_delim_def)

declare scan.simps(2) [simp del]

lemma char_cases:
  obtains (stop) "c = NUL \<or> c = CHR ''#''" | (delim) "is_delim c"
    | (other) "\<not> is_delim c" "c \<noteq> NUL" "c \<noteq> CHR ''#''"
  by blast

lemma scan_frame:
  "scan e opt L k cs st = r \<Longrightarrow> \<exists>st'. (r = Running st' \<or> r = Fault st') \<and> frame st st'"
proof (induction cs arbitrary: k st)
  case Nil
  then show ?case by (auto simp: frame_refl)
next
  case (Cons c cs)
  let ?st1 = "check_char opt k c st"
  have f1: "frame st ?st1" by (rule check_char_frame)
  show ?case
  proof (cases c rule: char_cases)
    case stop
    with Cons.prems show ?thesis by (auto simp: scan_stop frame_refl)
  next
    case other
    with Cons.prems have "scan e opt L (k + 1) cs ?st1 = r" by (simp add: scan_other)
    from Cons.IH [OF this] f1 show ?thesis by (blast intro: frame_trans)
  next
    case delim
    obtain st3 where st3: "field_end e opt L k ?st1 = Running st3 \<or> field_end e opt L k ?st1 = Fault st3"
      and f3: "frame ?st1 st3"
      using field_end_frame [of e opt L k ?st1] by blast
    from st3 show ?thesis
    proof
      assume fl: "field_end e opt L k ?st1 = Fault st3"
      with Cons.prems have "r = Fault st3" by (simp add: scan_delim [OF delim])
      with f1 f3 show ?thesis by (blast intro: frame_trans)
    next
      assume run: "field_end e opt L k ?st1 = Running st3"
      with Cons.prems
      have "scan e opt L (k + 1) cs (st3\<lparr>tokenStart := k + 1\<rparr>) = r"
        by (simp add: scan_delim [OF delim])
      from Cons.IH [OF this] obtain st' where r: "r = Running st' \<or> r = Fault st'"
        and f4: "frame (st3\<lparr>tokenStart := k + 1\<rparr>) st'" by blast
      have "frame st3 (st3\<lparr>tokenStart := k + 1\<rparr>)" by (simp add: frame_def)
      with f1 f3 f4 have "frame st st'" by (blast intro: frame_trans)
      with r show ?thesis by blast
    qed
  qed
qed

lemma die_Exited: "n \<noteq> 0 \<Longrightarrow> die n opt m st = Exited n (st\<lparr>out := logx_write n opt m (out st)\<rparr>)"
  by (simp add: die_def logx_def)

lemma add_trick_cases:
  "add_trick e opt d st = Running st' \<Longrightarrow>
     (d < 0 \<and> trickHeap st' = trickHeap st \<and> trickCount st' = trickCount st) \<or>
     (d = int (trickCount st) + 1 \<and> trickCount st' = trickCount st + 1 \<and>
      trickHeap st' = trickHeap st @ [(pony st)\<lparr>watchHandle := d\<rparr>])"
  unfolding add_trick_def Let_def
  by (auto simp: die_Exited split: if_splits)

lemma seq_ok_snoc:
  "seq_ok st \<Longrightarrow> trickCount st' = trickCount st + 1 \<Longrightarrow>
   trickHeap st' = trickHeap st @ [t] \<Longrightarrow> watchHandle t = int (trickCount st) + 1 \<Longrightarrow> seq_ok st'"
  by (auto simp: seq_ok_def list_all_iff nth_append)

lemma conf_line_seq_ok:
  assumes "conf_line e opt l st = Running st'" and "seq_ok st"
  shows "seq_ok st'"
proof -
  let ?st0 = "st\<lparr>lineNo := lineNo st + 1, fieldNo := 0, tokenStart := 0, badPony := 0\<rparr>"
  obtain st1 where s1: "scan e opt l 0 l ?st0 = Running st1 \<or> scan e opt l 0 l ?st0 = Fault st1"
    and f: "frame ?st0 st1"
    using scan_frame [of e opt l 0 l ?st0] by blast
  from s1 assms(1) have run: "scan e opt l 0 l ?st0 = Running st1"
    by (auto simp: conf_line_def)
  from f have same: "trickHeap st1 = trickHeap st" "trickCount st1 = trickCount st"
    by (simp_all add: frame_def)
  with assms(2) have ok1: "seq_ok st1" by (simp add: seq_ok_def)
  show ?thesis
  proof (cases "fieldNo st1 \<noteq> 0 \<and> \<not> (badPony st1 \<noteq> 0 \<or> fieldNo st1 < 5)")
    case False
    with run assms(1) have "st' = st1 \<or> st' = say opt (Discarding (config opt) (lineNo st1)) st1"
      by (auto simp: conf_line_def split: if_splits)
    with ok1 show ?thesis by (auto simp: seq_ok_def)
  next
    case True
    with run assms(1) have "add_trick e opt
        (inotify_add_watch e (lineNo st1) (fileName (pony st1)) (actions (pony st1))) st1 = Running st'"
      by (auto simp: conf_line_def split: if_splits)
    from add_trick_cases [OF this] ok1 show ?thesis
      by (auto simp: seq_ok_def list_all_iff nth_append)
  qed
qed

lemma load_lines_seq_ok:
  "load_lines e opt ls st = Running st' \<Longrightarrow> seq_ok st \<Longrightarrow> seq_ok st'"
proof (induction ls arbitrary: st)
  case Nil
  then show ?case by simp
next
  case (Cons l ls)
  from Cons.prems(1) obtain st1 where 1: "conf_line e opt l st = Running st1"
    and 2: "load_lines e opt ls st1 = Running st'"
    by (auto split: outcome.splits)
  from conf_line_seq_ok [OF 1 Cons.prems(2)] Cons.IH [OF 2] show ?case by blast
qed


lemma field_count_Nil [simp]: "field_count [] = 0"
  by (simp add: field_count_def record_part_def)

lemma field_count_stop: "c = NUL \<or> c = CHR ''#'' \<Longrightarrow> field_count (c # cs) = 0"
  by (auto simp: field_count_def record_part_def)

lemma field_count_delim: "is_delim c \<Longrightarrow> field_count (c # cs) = field_count cs + 1"
  by (auto simp: field_count_def record_part_def is_delim_def NUL_def newline_def)

lemma field_count_other:
  "\<not> is_delim c \<Longrightarrow> c \<noteq> NUL \<Longrightarrow> c \<noteq> CHR ''#'' \<Longrightarrow> field_count (c # cs) = field_count cs"
  by (auto simp: field_count_def record_part_def)

lemma conf_field_no_fault:
  "fieldNo st \<noteq> 5 \<Longrightarrow> \<exists>st'. conf_field e opt tok st = Running st'"
  unfolding conf_field_def Let_def by auto

lemma field_end_running:
  "fieldNo st \<noteq> 4 \<Longrightarrow>
   \<exists>st'. field_end e opt L k st = Running st' \<and> frame st st' \<and>
         fieldNo st' = fieldNo st + 1 \<and> tokenStart st' = tokenStart st"
proof -
  assume "fieldNo st \<noteq> 4"
  then obtain st' where r: "field_end e opt L k st = Running st'"
    unfolding field_end_def Let_def
    using conf_field_no_fault [of "st\<lparr>fieldNo := fieldNo st + 1\<rparr>" e opt] by auto
  from field_end_frame [OF r] r show ?thesis by auto
qed

lemma scan_fieldNo:
  "scan e opt L k cs st = Running st' \<Longrightarrow> fieldNo st' = fieldNo st + field_count cs"
proof (induction cs arbitrary: k st)
  case Nil
  then show ?case by simp
next
  case (Cons c cs)
  show ?case
  proof (cases c rule: char_cases)
    case stop
    with Cons.prems show ?thesis by (auto simp: scan_stop field_count_stop)
  next
    case delim
    from Cons.prems obtain st3 where fe: "field_end e opt L k (check_char opt k c st) = Running st3"
      and sc: "scan e opt L (k + 1) cs (st3\<lparr>tokenStart := k + 1\<rparr>) = Running st'"
      by (auto simp: scan_delim [OF delim] split: outcome.splits)
    from field_end_frame [OF fe] have "fieldNo st3 = fieldNo st + 1" by auto
    with Cons.IH [OF sc] show ?thesis by (simp add: field_count_delim [OF delim])
  next
    case other
    with Cons.prems have "scan e opt L (k + 1) cs (check_char opt k c st) = Running st'"
      by (simp add: scan_other)
    from Cons.IH [OF this] other show ?thesis by (simp add: field_count_other)
  qed
qed

lemma scan_few_fields:
  "fieldNo st + field_count cs < 5 \<Longrightarrow> \<exists>st'. scan e opt L k cs st = Running st'"
proof (induction cs arbitrary: k st)
  case Nil
  then show ?case by simp
next
  case (Cons c cs)
  show ?case
  proof (cases c rule: char_cases)
    case stop
    then show ?thesis by (auto simp: scan_stop)
  next
    case delim
    with Cons.prems have lt: "fieldNo st + 1 + field_count cs < 5"
      by (simp add: field_count_delim)
    then have "fieldNo (check_char opt k c st) \<noteq> 4" by simp
    from field_end_running [OF this, of e opt L k] obtain st3
      where fe: "field_end e opt L k (check_char opt k c st) = Running st3"
        and fn: "fieldNo st3 = fieldNo st + 1" by auto
    from fn lt have "fieldNo (st3\<lparr>tokenStart := k + 1\<rparr>) + field_count cs < 5" by simp
    from Cons.IH [OF this, of "k + 1"] fe show ?thesis by (simp add: scan_delim [OF delim])
  next
    case other
    with Cons.prems have "fieldNo (check_char opt k c st) + field_count cs < 5"
      by (simp add: field_count_other)
    from Cons.IH [OF this, of "k + 1"] other show ?thesis by (simp add: scan_other)
  qed
qed

lemma short_line_discarded:
  assumes "0 < field_count l" and "field_count l < 5"
  shows "\<exists>st' more. conf_line e opt l st = Running st' \<and>
           trickHeap st' = trickHeap st \<and> trickCount st' = trickCount st \<and>
           stderr_lines (out st') = stderr_lines (out st) \<and>
           stdout_lines (out st') =
             stdout_lines (out st) @ more @ [Discarding (config opt) (lineNo st + 1)]"
proof -
  from assms(2) have "fieldNo (next_line st) + field_count l < 5" by (simp add: next_line_def)
  from scan_few_fields [OF this] obtain st1
    where run: "scan e opt l 0 l (next_line st) = Running st1" by blast
  from scan_fieldNo [OF run] have fn: "fieldNo st1 = field_count l" by (simp add: next_line_def)
  from scan_frame [OF run] have f: "frame (next_line st) st1" by auto
  then obtain more where m: "stdout_lines (out st1) = stdout_lines (out st) @ more"
    by (auto simp: frame_def next_line_def)
  from f have same: "trickHeap st1 = trickHeap st" "trickCount st1 = trickCount st"
    "lineNo st1 = lineNo st + 1" "stderr_lines (out st1) = stderr_lines (out st)"
    by (simp_all add: frame_def next_line_def)
  from run fn assms have "conf_line e opt l st =
      Running (say opt (Discarding (config opt) (lineNo st1)) st1)"
    by (simp add: conf_line_def next_line_def)
  with m same show ?thesis by simp
qed

lemma running_ex: "(case x of Running s \<Rightarrow> P s | Exited n s \<Rightarrow> False | Fault s \<Rightarrow> False) \<Longrightarrow> \<exists>s. x = Running s \<and> P s"
  by (cases x) auto

text \<open>
  Claim C1. When the load loop has run through the configuration without a fatal exit,
  the table has \<open>trickCount\<close> entries and the trick at position \<open>i\<close> carries the
  watch descriptor \<open>i + 1\<close>. And when a line has passed every check (at least five
  fields, pony not bad) and the kernel answers its registration with a descriptor
  (a value that is not negative) other than \<open>trickCount + 1\<close>, the loader exits at once
  with status 2, having written the heap-corrupt text to standard error, and the table is
  as it was: the trick is not stored and no later line is read.
\<close>

theorem watch_id_indexing:
  "(load_lines e opt ls (loader0 p w) = Running st \<longrightarrow>
      trickCount st = length (trickHeap st) \<and>
      (\<forall>i<length (trickHeap st). watchHandle (trickHeap st ! i) = int i + 1)) \<and>
   (scan e opt l 0 l (next_line st0) = Running st1 \<and> 5 \<le> fieldNo st1 \<and> badPony st1 = 0 \<and>
    0 \<le> inotify_add_watch e (lineNo st1) (fileName (pony st1)) (actions (pony st1)) \<and>
    inotify_add_watch e (lineNo st1) (fileName (pony st1)) (actions (pony st1))
      \<noteq> int (trickCount st0) + 1 \<longrightarrow>
      (\<exists>st'. load_lines e opt (l # ls) st0 = Exited 2 st' \<and>
             trickHeap st' = trickHeap st0 \<and>
             stderr_lines (out st') = stderr_lines (out st0) @ [HeapCorrupt]))"
proof (rule conjI; rule impI)
  assume run: "load_lines e opt ls (loader0 p w) = Running st"
  have "seq_ok (loader0 p w)" by (simp add: seq_ok_def loader0_def)
  from load_lines_seq_ok [OF run this]
  show "trickCount st = length (trickHeap st) \<and>
      (\<forall>i<length (trickHeap st). watchHandle (trickHeap st ! i) = int i + 1)"
    by (simp add: seq_ok_def list_all_iff)
next
  let ?wd = "inotify_add_watch e (lineNo st1) (fileName (pony st1)) (actions (pony st1))"
  assume a: "scan e opt l 0 l (next_line st0) = Running st1 \<and> 5 \<le> fieldNo st1 \<and> badPony st1 = 0 \<and>
    0 \<le> ?wd \<and> ?wd \<noteq> int (trickCount st0) + 1"
  from a scan_frame [of e opt l 0 l "next_line st0" "Running st1"]
  have f: "frame (next_line st0) st1" by auto
  then have same: "trickCount st1 = trickCount st0" "trickHeap st1 = trickHeap st0"
    "stderr_lines (out st1) = stderr_lines (out st0)"
    by (simp_all add: frame_def next_line_def)
  let ?st' = "st1\<lparr>pony := (pony st1)\<lparr>watchHandle := ?wd\<rparr>,
                  out := logx_write 2 opt HeapCorrupt (out st1)\<rparr>"
  from a same have "add_trick e opt ?wd st1 = Exited 2 ?st'"
    by (simp add: add_trick_def die_Exited)
  with a have "conf_line e opt l st0 = Exited 2 ?st'"
    by (simp add: conf_line_def next_line_def)
  then have "load_lines e opt (l # ls) st0 = Exited 2 ?st'" by simp
  moreover have "trickHeap ?st' = trickHeap st0" using same by simp
  moreover have "stderr_lines (out ?st') = stderr_lines (out st0) @ [HeapCorrupt]"
    using same by (simp add: logx_write_sel)
  ultimately show "\<exists>st'. load_lines e opt (l # ls) st0 = Exited 2 st' \<and>
             trickHeap st' = trickHeap st0 \<and>
             stderr_lines (out st') = stderr_lines (out st0) @ [HeapCorrupt]"
    by blast
qed

text \<open>
  Two lines, a kernel that numbers its descriptors 1, 2: both tricks are stored with
  these descriptors. The same lines, a kernel that answers 7: exit 2 at the first line.
\<close>

theorem watch_id_indexing_witness:
  "(\<exists>st. load_lines env_seq opt_quiet [line_a, line_b] (loader0 pony_null world0) = Running st \<and>
         map watchHandle (trickHeap st) = [1, 2]) \<and>
   (\<exists>st'. load_lines env_seven opt_quiet [line_a, line_b] (loader0 pony_null world0) = Exited 2 st' \<and>
          trickHeap st' = [] \<and> stderr_lines (out st') = [HeapCorrupt])"
proof -
  have "case load_lines env_seq opt_quiet [line_a, line_b] (loader0 pony_null world0) of
          Running s \<Rightarrow> length (trickHeap s) = 2 | Exited n s \<Rightarrow> False | Fault s \<Rightarrow> False"
    by code_simp
  then obtain st where run: "load_lines env_seq opt_quiet [line_a, line_b] (loader0 pony_null world0) = Running st"
    and len: "length (trickHeap st) = 2"
    by (blast dest: running_ex)
  from watch_id_indexing [of env_seq opt_quiet "[line_a, line_b]" pony_null world0 st] run
  have "\<forall>i<length (trickHeap st). watchHandle (trickHeap st ! i) = int i + 1" by blast
  with len have "watchHandle (trickHeap st ! 0) = 1" "watchHandle (trickHeap st ! 1) = 2"
    by auto
  with len have "map watchHandle (trickHeap st) = [1, 2]"
    by (cases "trickHeap st"; cases "tl (trickHeap st)") auto
  with run have A: "\<exists>st. load_lines env_seq opt_quiet [line_a, line_b] (loader0 pony_null world0) = Running st \<and>
         map watchHandle (trickHeap st) = [1, 2]" by (intro exI [of _ st] conjI)
  have "case scan env_seven opt_quiet line_a 0 line_a (next_line (loader0 pony_null world0)) of
          Running s \<Rightarrow> 5 \<le> fieldNo s \<and> badPony s = 0 | Exited n s \<Rightarrow> False | Fault s \<Rightarrow> False"
    by code_simp
  then obtain st1 where sc: "scan env_seven opt_quiet line_a 0 line_a (next_line (loader0 pony_null world0)) = Running st1"
    and ok: "5 \<le> fieldNo st1 \<and> badPony st1 = 0"
    by (blast dest: running_ex)
  have wd: "inotify_add_watch env_seven n q m = 7" for n q m by (simp add: env_seven_def)
  have tc: "trickCount (loader0 pony_null world0) = 0" "trickHeap (loader0 pony_null world0) = []"
    "stderr_lines (out (loader0 pony_null world0)) = []"
    by (simp_all add: loader0_def world0_def)
  from watch_id_indexing [where e = env_seven and opt = opt_quiet and l = line_a
      and ?st0.0 = "loader0 pony_null world0" and ?st1.0 = st1 and ls = "[line_b]"]
    sc ok wd tc
  have B: "\<exists>st'. load_lines env_seven opt_quiet [line_a, line_b] (loader0 pony_null world0) = Exited 2 st' \<and>
          trickHeap st' = [] \<and> stderr_lines (out st') = [HeapCorrupt]"
    by simp
  from A B show ?thesis by blast
qed





lemma field_count_blank: "field_count [newline] = 1"
  by (simp add: field_count_def record_part_def is_delim_def newline_def NUL_def)

lemma conf_line_comment: "conf_line e opt (CHR ''#'' # rest) st = Running (next_line st)"
  by (simp add: conf_line_def scan_stop next_line_def)

text \<open>The two tests on a character, by what \<open>okchar\<close> says of it.\<close>

lemma isprint_colon: "isprint_c (CHR '':'')" "\<not> isprint_c newline"
  "CHR '':'' \<noteq> apostrophe"
  by (simp_all add: isprint_c_def newline_def apostrophe_def)

lemma check_char_delim: "is_delim c \<Longrightarrow> check_char opt k c st = st"
proof -
  assume "is_delim c"
  then have "c = CHR '':'' \<or> c = newline" by (simp add: is_delim_def)
  then show ?thesis
  proof
    assume "c = CHR '':''"
    then show ?thesis by (simp add: check_char_def isprint_colon)
  next
    assume "c = newline"
    then show ?thesis by (simp add: check_char_def isprint_colon)
  qed
qed


















text \<open>
  Claim C4. A line that begins with \<open>#\<close> is skipped silently: nothing is written and
  only the line counter (and the per-line variables) change. A blank line is not: the
  newline ends a first, empty field, so the line has one field, and whatever the system
  answers for the empty path, \<open>ERROR: discarding ...\<close> is written to standard output.
  No trick comes of it.
\<close>

theorem blank_line_not_silent:
  "(\<exists>st' more. conf_line e opt [newline] st = Running st' \<and>
       trickHeap st' = trickHeap st \<and>
       stdout_lines (out st') =
         stdout_lines (out st) @ more @ [Discarding (config opt) (lineNo st + 1)]) \<and>
   conf_line e opt (CHR ''#'' # rest) st = Running (next_line st)"
  using short_line_discarded [of "[newline]" e opt st]
  by (simp add: field_count_blank conf_line_comment) blast

text \<open>
  On a system where every answer is favourable, the blank line still ends in the
  discarding report, and a comment line changes nothing but the per-line variables.
\<close>

theorem blank_line_not_silent_witness:
  "(\<exists>st'. conf_line env_seq opt_quiet [newline] (loader0 pony_null world0) = Running st' \<and>
          trickHeap st' = [] \<and>
          last (stdout_lines (out st')) = Discarding ''gidget.conf'' 1) \<and>
   conf_line env_seq opt_quiet ''# watch nothing'' (loader0 pony_null world0) =
     Running (next_line (loader0 pony_null world0))"
proof -
  have st0: "trickHeap (loader0 pony_null world0) = []" "lineNo (loader0 pony_null world0) = 0"
    "config opt_quiet = ''gidget.conf''"
    by (simp_all add: loader0_def opt_quiet_def)
  from blank_line_not_silent [of env_seq opt_quiet "loader0 pony_null world0" "'' watch nothing''"] st0
  show ?thesis by auto
qed

lemma conf_line_nonzero:
  assumes kernel: "\<And>n q. inotify_add_watch e n q 0 < 0"
    and run: "conf_line e opt l st = Running st'"
    and inv: "list_all (\<lambda>t. actions t \<noteq> 0) (trickHeap st)"
  shows "list_all (\<lambda>t. actions t \<noteq> 0) (trickHeap st')"
proof -
  obtain st1 where "scan e opt l 0 l (next_line st) = Running st1 \<or>
      scan e opt l 0 l (next_line st) = Fault st1" and f: "frame (next_line st) st1"
    using scan_frame [of e opt l 0 l "next_line st"] by blast
  with run have sc: "scan e opt l 0 l (next_line st) = Running st1"
    by (auto simp: conf_line_def next_line_def)
  from f have same: "trickHeap st1 = trickHeap st" by (simp add: frame_def next_line_def)
  let ?d = "inotify_add_watch e (lineNo st1) (fileName (pony st1)) (actions (pony st1))"
  show ?thesis
  proof (cases "fieldNo st1 \<noteq> 0 \<and> \<not> (badPony st1 \<noteq> 0 \<or> fieldNo st1 < 5)")
    case False
    with sc run have "st' = st1 \<or> st' = say opt (Discarding (config opt) (lineNo st1)) st1"
      by (auto simp: conf_line_def next_line_def split: if_splits)
    with same inv show ?thesis by auto
  next
    case True
    with sc run have "add_trick e opt ?d st1 = Running st'"
      by (auto simp: conf_line_def next_line_def split: if_splits)
    from add_trick_cases [OF this] show ?thesis
    proof
      assume "?d < 0 \<and> trickHeap st' = trickHeap st1 \<and> trickCount st' = trickCount st1"
      with same inv show ?thesis by simp
    next
      assume a: "?d = int (trickCount st1) + 1 \<and> trickCount st' = trickCount st1 + 1 \<and>
        trickHeap st' = trickHeap st1 @ [(pony st1)\<lparr>watchHandle := ?d\<rparr>]"
      have "actions (pony st1) \<noteq> 0"
      proof
        assume "actions (pony st1) = 0"
        with kernel [of "lineNo st1" "fileName (pony st1)"] have "?d < 0" by simp
        with a show False by simp
      qed
      with a same inv show ?thesis by simp
    qed
  qed
qed

lemma load_lines_nonzero:
  assumes kernel: "\<And>n q. inotify_add_watch e n q 0 < 0"
  shows "load_lines e opt ls st = Running st' \<Longrightarrow>
    list_all (\<lambda>t. actions t \<noteq> 0) (trickHeap st) \<Longrightarrow>
    list_all (\<lambda>t. actions t \<noteq> 0) (trickHeap st')"
proof (induction ls arbitrary: st)
  case Nil
  then show ?case by simp
next
  case (Cons l ls)
  from Cons.prems(1) obtain st1 where 1: "conf_line e opt l st = Running st1"
    and 2: "load_lines e opt ls st1 = Running st'"
    by (auto split: outcome.splits)
  from conf_line_nonzero [OF kernel 1 Cons.prems(2)] Cons.IH [OF 2] show ?case by blast
qed

lemma digits_val_foldl:
  "list_all isdigit_c s \<Longrightarrow>
   digits_val acc s = foldl (\<lambda>v c. 10 * v + ((of_char c :: nat) - 48)) acc s"
  by (induction s arbitrary: acc) auto

lemma digit_not_space: "isdigit_c c \<Longrightarrow> \<not> isspace_c c \<and> c \<noteq> CHR ''-'' \<and> c \<noteq> CHR ''+''"
  by (auto simp: isdigit_c_def isspace_c_def)

lemma strtol10_digits:
  assumes "list_all isdigit_c s"
  shows "strtol10 s = min (2 ^ 63 - 1) (int (dec_value s))"
proof (cases s)
  case Nil
  then show ?thesis by (simp add: strtol10_def dec_value_def)
next
  case (Cons c cs)
  with assms have "isdigit_c c" by simp
  from digit_not_space [OF this] Cons have "dropWhile isspace_c s = s" by simp
  moreover from \<open>isdigit_c c\<close> digit_not_space have "c \<noteq> CHR ''-''" "c \<noteq> CHR ''+''" by blast+
  ultimately show ?thesis
    using Cons digits_val_foldl [OF assms, of 0]
    by (simp add: strtol10_def Let_def dec_value_def)
qed


lemma plain_Cons:
  "plain (c # cs) \<Longrightarrow> \<not> is_delim c \<and> c \<noteq> NUL \<and> c \<noteq> CHR ''#'' \<and> plain cs"
  by (auto simp: plain_def is_delim_def)

lemma scan_plain:
  "plain seg \<Longrightarrow>
   \<exists>s1. scan e opt L k (seg @ rest) st = scan e opt L (k + length seg) rest s1 \<and>
        frame st s1 \<and> fieldNo s1 = fieldNo st \<and> tokenStart s1 = tokenStart st \<and>
        pony s1 = pony st"
proof (induction seg arbitrary: k st)
  case Nil
  then show ?case by (auto simp: frame_refl)
next
  case (Cons c seg)
  from plain_Cons [OF Cons.prems] have c: "\<not> is_delim c" "c \<noteq> NUL" "c \<noteq> CHR ''#''"
    and p: "plain seg" by simp_all
  let ?st1 = "check_char opt k c st"
  from Cons.IH [OF p, of "k + 1" ?st1] obtain s1
    where 1: "scan e opt L (k + 1) (seg @ rest) ?st1 = scan e opt L (k + 1 + length seg) rest s1"
      and 2: "frame ?st1 s1" "fieldNo s1 = fieldNo ?st1" "tokenStart s1 = tokenStart ?st1"
        "pony s1 = pony ?st1"
    by blast
  from c 1 have "scan e opt L k ((c # seg) @ rest) st = scan e opt L (k + length (c # seg)) rest s1"
    by (simp add: scan_other)
  moreover from 2 check_char_frame [of st opt k c] have "frame st s1"
    by (blast intro: frame_trans)
  ultimately show ?case using 2 by auto
qed

lemma takeWhile_all: "(length (takeWhile P xs) = length xs) = list_all P xs"
  by (induction xs) auto

lemma conf_field_mask:
  "fieldNo st = 2 \<Longrightarrow>
   conf_field e opt tok st =
     (if list_all isdigit_c tok
      then Running (st\<lparr>pony := (pony st)\<lparr>actions := atoi tok\<rparr>\<rparr>)
      else Running ((say opt (NonNumericMask (config opt) (lineNo st)) st)\<lparr>badPony := 2\<rparr>))"
  by (simp add: conf_field_def Let_def takeWhile_all)

lemma conf_field_keeps_actions:
  "fieldNo st \<noteq> 2 \<Longrightarrow> conf_field e opt tok st = Running st' \<Longrightarrow>
   actions (pony st') = actions (pony st)"
  unfolding conf_field_def Let_def
  by (auto split: if_splits)

lemma scan_keeps_actions:
  "scan e opt L k cs st = Running st' \<Longrightarrow> 2 \<le> fieldNo st \<Longrightarrow>
   actions (pony st') = actions (pony st)"
proof (induction cs arbitrary: k st)
  case Nil
  then show ?case by simp
next
  case (Cons c cs)
  show ?case
  proof (cases c rule: char_cases)
    case stop
    with Cons.prems show ?thesis by (simp add: scan_stop)
  next
    case other
    with Cons.prems have "scan e opt L (k + 1) cs (check_char opt k c st) = Running st'"
      by (simp add: scan_other)
    from Cons.IH [OF this] Cons.prems(2) show ?thesis by simp
  next
    case delim
    let ?st1 = "check_char opt k c st"
    from Cons.prems(1) obtain st3 where fe: "field_end e opt L k ?st1 = Running st3"
      and sc: "scan e opt L (k + 1) cs (st3\<lparr>tokenStart := k + 1\<rparr>) = Running st'"
      by (auto simp: scan_delim [OF delim] split: outcome.splits)
    from field_end_frame [OF fe] have fn: "fieldNo st3 = fieldNo st + 1" by auto
    from fe have "conf_field e opt
        (take (k - tokenStart ?st1) (drop (tokenStart ?st1) L))
        (?st1\<lparr>fieldNo := fieldNo ?st1 + 1\<rparr>) = Running st3"
      by (simp add: field_end_def Let_def)
    from conf_field_keeps_actions [OF _ this] Cons.prems(2)
    have "actions (pony st3) = actions (pony st)" by simp
    moreover from Cons.IH [OF sc] fn Cons.prems(2)
    have "actions (pony st') = actions (pony st3)" by simp
    ultimately show ?thesis by simp
  qed
qed

lemma scan_to_mask:
  fixes rest :: string
  assumes f1: "plain f1" and f2: "plain f2" and d: "is_delim d"
  defines "L \<equiv> f1 @ CHR '':'' # f2 @ d # rest"
  shows "\<exists>s2. frame (next_line st) s2 \<and> fieldNo s2 = 2 \<and>
     scan e opt L 0 L (next_line st) =
       (case conf_field e opt f2 s2 of
          Running s3 \<Rightarrow> scan e opt L (length f1 + length f2 + 2) rest
                           (s3\<lparr>tokenStart := length f1 + length f2 + 2\<rparr>)
        | Exited n s \<Rightarrow> Exited n s
        | Fault s \<Rightarrow> Fault s)"
proof -
  let ?s0 = "next_line st"
  have colon: "is_delim (CHR '':'')" by (simp add: is_delim_def)
  from scan_plain [OF f1, of e opt L 0 "CHR '':'' # f2 @ d # rest" ?s0]
  obtain sA where A: "scan e opt L 0 L ?s0 = scan e opt L (length f1) (CHR '':'' # f2 @ d # rest) sA"
    and fA: "frame ?s0 sA" and nA: "fieldNo sA = 0" and tA: "tokenStart sA = 0"
    by (auto simp: L_def next_line_def)
  from nA have "fieldNo sA \<noteq> 4" by simp
  from field_end_running [OF this, of e opt L "length f1"]
  obtain sB where B: "field_end e opt L (length f1) sA = Running sB"
    and fB: "frame sA sB" and nB: "fieldNo sB = 1"
    using nA by auto
  let ?sB = "sB\<lparr>tokenStart := length f1 + 1\<rparr>"
  from A B have A2: "scan e opt L 0 L ?s0 = scan e opt L (length f1 + 1) (f2 @ d # rest) ?sB"
    by (simp add: scan_delim [OF colon] check_char_delim [OF colon])
  from scan_plain [OF f2, of e opt L "length f1 + 1" "d # rest" ?sB]
  obtain sC where C: "scan e opt L (length f1 + 1) (f2 @ d # rest) ?sB =
        scan e opt L (length f1 + 1 + length f2) (d # rest) sC"
    and fC: "frame ?sB sC" and nC: "fieldNo sC = 1" and tC: "tokenStart sC = length f1 + 1"
    using nB by auto
  let ?s2 = "sC\<lparr>fieldNo := 2\<rparr>"
  have tok: "take (length f2) (drop (length f1 + 1) L) = f2" by (simp add: L_def)
  have "field_end e opt L (length f1 + 1 + length f2) sC = conf_field e opt f2 ?s2"
    using nC tC tok by (simp add: field_end_def Let_def numeral_2_eq_2)
  with A2 C have "scan e opt L 0 L ?s0 =
       (case conf_field e opt f2 ?s2 of
          Running s3 \<Rightarrow> scan e opt L (length f1 + length f2 + 2) rest
                           (s3\<lparr>tokenStart := length f1 + length f2 + 2\<rparr>)
        | Exited n s \<Rightarrow> Exited n s
        | Fault s \<Rightarrow> Fault s)"
    by (simp add: scan_delim [OF d] check_char_delim [OF d] split: outcome.split)
  moreover have "frame sB ?sB" by (simp add: frame_def)
  then have "frame ?s0 ?s2"
    using fA fB fC by (auto simp: frame_def)
  ultimately show ?thesis by (intro exI [of _ ?s2]) simp
qed


lemma line_good_mask:
  assumes f1: "plain f1" and f2: "plain f2" and d: "is_delim d"
    and good: "list_all isdigit_c f2"
    and run: "conf_line e opt (f1 @ CHR '':'' # f2 @ d # rest) st = Running st'"
    and grew: "trickHeap st' \<noteq> trickHeap st"
  shows "\<exists>t. trickHeap st' = trickHeap st @ [t] \<and> actions t = atoi f2"
proof -
  let ?L = "f1 @ CHR '':'' # f2 @ d # rest"
  let ?k = "length f1 + length f2 + 2"
  from scan_to_mask [OF f1 f2 d, of st e opt rest] obtain s2
    where fr: "frame (next_line st) s2" and fn: "fieldNo s2 = 2"
      and sc: "scan e opt ?L 0 ?L (next_line st) =
       (case conf_field e opt f2 s2 of
          Running s3 \<Rightarrow> scan e opt ?L ?k rest (s3\<lparr>tokenStart := ?k\<rparr>)
        | Exited n s \<Rightarrow> Exited n s
        | Fault s \<Rightarrow> Fault s)"
    by blast
  let ?s3 = "s2\<lparr>pony := (pony s2)\<lparr>actions := atoi f2\<rparr>, tokenStart := ?k\<rparr>"
  from sc good fn have sc2: "scan e opt ?L 0 ?L (next_line st) = scan e opt ?L ?k rest ?s3"
    by (simp add: conf_field_mask)
  obtain s4 where s4: "scan e opt ?L ?k rest ?s3 = Running s4 \<or> scan e opt ?L ?k rest ?s3 = Fault s4"
    and f4: "frame ?s3 s4"
    using scan_frame [of e opt ?L ?k rest ?s3] by blast
  with run sc2 have r4: "scan e opt ?L ?k rest ?s3 = Running s4"
    by (auto simp: conf_line_def next_line_def)
  from scan_keeps_actions [OF r4] fn have act: "actions (pony s4) = atoi f2" by simp
  from f4 fr have h4: "trickHeap s4 = trickHeap st"
    by (simp add: frame_def next_line_def)
  let ?d = "inotify_add_watch e (lineNo s4) (fileName (pony s4)) (actions (pony s4))"
  show ?thesis
  proof (cases "fieldNo s4 \<noteq> 0 \<and> \<not> (badPony s4 \<noteq> 0 \<or> fieldNo s4 < 5)")
    case False
    with r4 sc2 run have "st' = s4 \<or> st' = say opt (Discarding (config opt) (lineNo s4)) s4"
      by (auto simp: conf_line_def next_line_def split: if_splits)
    with h4 grew show ?thesis by auto
  next
    case True
    with r4 sc2 run have "add_trick e opt ?d s4 = Running st'"
      by (auto simp: conf_line_def next_line_def split: if_splits)
    from add_trick_cases [OF this] h4 grew act show ?thesis by auto
  qed
qed




lemma add_trick_table:
  "trickHeap (state_of (add_trick e opt d st)) =
     (if 0 \<le> d \<and> d = int (trickCount st) + 1 \<and> malloc_ok e (lineNo st) 6 \<and>
         malloc_ok e (lineNo st) 7
      then trickHeap st @ [(pony st)\<lparr>watchHandle := d\<rparr>]
      else trickHeap st)"
  unfolding add_trick_def Let_def
  by (auto simp: die_Exited)

lemma isdigit_plain: "isdigit_c c \<Longrightarrow> c \<noteq> NUL \<and> c \<noteq> CHR ''#'' \<and> c \<noteq> CHR '':'' \<and> c \<noteq> newline"
proof -
  assume a: "isdigit_c c"
  have "\<not> isdigit_c NUL" "\<not> isdigit_c (CHR ''#'')" "\<not> isdigit_c (CHR '':'')" "\<not> isdigit_c newline"
    by (simp_all add: isdigit_c_def NUL_def newline_def)
  with a show ?thesis by blast
qed

lemma digits_plain: "list_all isdigit_c s \<Longrightarrow> plain s"
  by (induction s) (simp_all add: plain_def isdigit_plain)

lemma conf_line_outcomes:
  "(\<exists>st1. scan e opt l 0 l (next_line st) = Fault st1 \<and> conf_line e opt l st = Fault st1 \<and>
          frame (next_line st) st1) \<or>
   (\<exists>st1. scan e opt l 0 l (next_line st) = Running st1 \<and> frame (next_line st) st1 \<and>
      conf_line e opt l st =
        (if fieldNo st1 \<noteq> 0
         then (if badPony st1 \<noteq> 0 \<or> fieldNo st1 < 5
               then Running (say opt (Discarding (config opt) (lineNo st1)) st1)
               else add_trick e opt
                      (inotify_add_watch e (lineNo st1) (fileName (pony st1)) (actions (pony st1)))
                      st1)
         else Running st1))"
proof -
  obtain st1 where c: "scan e opt l 0 l (next_line st) = Running st1 \<or>
      scan e opt l 0 l (next_line st) = Fault st1" and f: "frame (next_line st) st1"
    using scan_frame [of e opt l 0 l "next_line st"] by blast
  from c show ?thesis
  proof
    assume "scan e opt l 0 l (next_line st) = Fault st1"
    with f show ?thesis by (auto simp: conf_line_def next_line_def)
  next
    assume "scan e opt l 0 l (next_line st) = Running st1"
    with f show ?thesis by (auto simp: conf_line_def next_line_def)
  qed
qed

lemma zero_mask_not_stored:
  assumes kernel: "\<forall>n q. inotify_add_watch e n q 0 < 0"
    and f1: "plain f1" and d: "is_delim d" and dg: "list_all isdigit_c f2" and z: "atoi f2 = 0"
  shows "trickHeap (state_of (conf_line e opt (f1 @ CHR '':'' # f2 @ d # rest) st)) = trickHeap st"
proof -
  let ?l = "f1 @ CHR '':'' # f2 @ d # rest"
  from conf_line_outcomes [of e opt ?l st] show ?thesis
  proof (elim disjE exE conjE)
    fix st1 :: loader assume "conf_line e opt ?l st = Fault st1" "frame (next_line st) st1"
    then show ?thesis by (simp add: frame_def next_line_def)
  next
    fix st1 :: loader
    let ?wd = "inotify_add_watch e (lineNo st1) (fileName (pony st1)) (actions (pony st1))"
    assume sc: "scan e opt ?l 0 ?l (next_line st) = Running st1"
      and f: "frame (next_line st) st1"
      and cl: "conf_line e opt ?l st =
        (if fieldNo st1 \<noteq> 0
         then (if badPony st1 \<noteq> 0 \<or> fieldNo st1 < 5
               then Running (say opt (Discarding (config opt) (lineNo st1)) st1)
               else add_trick e opt ?wd st1)
         else Running st1)"
    from f have same: "trickHeap st1 = trickHeap st" by (simp add: frame_def next_line_def)
    show ?thesis
    proof (cases "fieldNo st1 \<noteq> 0 \<and> \<not> (badPony st1 \<noteq> 0 \<or> fieldNo st1 < 5)")
      case False
      with cl same show ?thesis by (auto split: if_splits)
    next
      case True
      with cl have r: "conf_line e opt ?l st = add_trick e opt ?wd st1" by simp
      show ?thesis
      proof (rule ccontr)
        assume ne: "trickHeap (state_of (conf_line e opt ?l st)) \<noteq> trickHeap st"
        with r same have grow: "0 \<le> ?wd"
          "trickHeap (state_of (add_trick e opt ?wd st1)) = trickHeap st1 @ [(pony st1)\<lparr>watchHandle := ?wd\<rparr>]"
          by (auto simp: add_trick_table split: if_splits)
        from r ne same have "\<exists>st'. conf_line e opt ?l st = Running st'"
          unfolding add_trick_def Let_def
          by (auto simp: die_Exited split: if_splits)
        then obtain st' where run: "conf_line e opt ?l st = Running st'" by blast
        with ne have "trickHeap st' \<noteq> trickHeap st" by simp
        from line_good_mask [OF f1 digits_plain [OF dg] d dg run this]
        obtain t where "trickHeap st' = trickHeap st @ [t]" "actions t = atoi f2" by blast
        with run r grow same have "actions (pony st1) = atoi f2" by simp
        with z kernel have "?wd < 0" by simp
        with grow show False by simp
      qed
    qed
  qed
qed

text \<open>
  Claim C9. The mask of a stored trick is the mask the kernel has accepted in
  \<open>inotify_add_watch\<close>, and inotify refuses a mask of 0 (\<open>EINVAL\<close>, a negative return),
  which the loader takes as a failed registration and discards. So with inotify as the
  kernel, every trick in the table after the load has a mask that is not zero; and a line
  whose mask field is all digits with value 0 (\<open>0\<close>, or the empty field, for which
  \<open>atoi\<close> gives 0) leaves the table as it was, however the line ends.
\<close>

theorem nonzero_mask_invariant:
  assumes "\<forall>n q. inotify_add_watch e n q 0 < 0"
  shows "(load_lines e opt ls (loader0 p w) = Running st \<longrightarrow>
            (\<forall>t \<in> set (trickHeap st). actions t \<noteq> 0)) \<and>
         (plain f1 \<and> is_delim d \<and> list_all isdigit_c f2 \<and> atoi f2 = 0 \<longrightarrow>
            trickHeap (state_of (conf_line e opt (f1 @ CHR '':'' # f2 @ d # rest) st0)) =
              trickHeap st0) \<and>
         atoi ''0'' = 0 \<and> atoi [] = 0"
proof (intro conjI impI)
  assume run: "load_lines e opt ls (loader0 p w) = Running st"
  have "list_all (\<lambda>t. actions t \<noteq> 0) (trickHeap (loader0 p w))"
    by (simp add: loader0_def)
  with load_lines_nonzero [OF _ run] assms
  show "\<forall>t \<in> set (trickHeap st). actions t \<noteq> 0" by (simp add: list_all_iff)
next
  assume "plain f1 \<and> is_delim d \<and> list_all isdigit_c f2 \<and> atoi f2 = 0"
  with assms show "trickHeap (state_of (conf_line e opt (f1 @ CHR '':'' # f2 @ d # rest) st0)) =
              trickHeap st0"
    by (blast intro: zero_mask_not_stored)
next
  have "list_all isdigit_c ''0''" by (simp add: isdigit_c_def)
  from strtol10_digits [OF this] show "atoi ''0'' = 0" by (simp add: atoi_def dec_value_def)
next
  have "list_all isdigit_c []" by simp
  from strtol10_digits [OF this] show "atoi [] = 0" by (simp add: atoi_def dec_value_def)
qed

text \<open>
  A kernel that refuses the mask 0: of the lines \<open>/a:8:/s:u:m\<close> and \<open>/a:0:/s:u:m\<close>
  the first is stored and the second is not.
\<close>

theorem nonzero_mask_invariant_witness:
  "(\<forall>n q. inotify_add_watch env_einval n q 0 < 0) \<and>
   plain ''/a'' \<and> is_delim (CHR '':'') \<and> list_all isdigit_c ''0'' \<and> atoi ''0'' = 0 \<and>
   (\<exists>st. load_lines env_einval opt_quiet [line_a, line_zero] (loader0 pony_null world0) = Running st \<and>
         length (trickHeap st) = 1 \<and> list_all (\<lambda>t. actions t \<noteq> 0) (trickHeap st)) \<and>
   trickHeap (state_of (conf_line env_einval opt_quiet line_zero (loader0 pony_null world0))) = []"
proof -
  have k: "\<forall>n q. inotify_add_watch env_einval n q 0 < 0" by (simp add: env_einval_def)
  have h: "plain ''/a''" "is_delim (CHR '':'')" "list_all isdigit_c ''0''"
    by (simp_all add: plain_def is_delim_def isdigit_c_def NUL_def newline_def)
  have lz: "line_zero = ''/a'' @ CHR '':'' # ''0'' @ CHR '':'' # (''/s:u:m'' @ [newline])"
    by (simp add: line_zero_def)
  have "case load_lines env_einval opt_quiet [line_a, line_zero] (loader0 pony_null world0) of
      Running s \<Rightarrow> length (trickHeap s) = 1 | Exited n s \<Rightarrow> False | Fault s \<Rightarrow> False"
    by code_simp
  then obtain st where run: "load_lines env_einval opt_quiet [line_a, line_zero] (loader0 pony_null world0) = Running st"
    and len: "length (trickHeap st) = 1"
    by (blast dest: running_ex)
  note T = nonzero_mask_invariant [OF k, where opt = opt_quiet and ls = "[line_a, line_zero]"
      and p = pony_null and w = world0 and st = st and ?f1.0 = "''/a''" and d = "CHR '':''"
      and ?f2.0 = "''0''" and rest = "''/s:u:m'' @ [newline]" and ?st0.0 = "loader0 pony_null world0"]
  from T have z: "atoi ''0'' = 0" by blast
  from T run have A: "list_all (\<lambda>t. actions t \<noteq> 0) (trickHeap st)" by (simp add: list_all_iff)
  from T h z have "trickHeap (state_of (conf_line env_einval opt_quiet line_zero (loader0 pony_null world0))) =
      trickHeap (loader0 pony_null world0)"
    by (simp add: lz)
  then have B: "trickHeap (state_of (conf_line env_einval opt_quiet line_zero (loader0 pony_null world0))) = []"
    by (simp add: loader0_def)
  from k h z run len A B show ?thesis by blast
qed

text \<open>
  The test is the kernel's: the loader has none of its own, and were a registration with
  mask 0 answered by a descriptor, the trick would be stored.
\<close>

lemma zero_mask_left_to_kernel:
  "(\<exists>st. load_lines env_seq opt_quiet [line_zero] (loader0 pony_null world0) = Running st \<and>
         map actions (trickHeap st) = [0]) \<and>
   (\<exists>st. load_lines env_seq opt_quiet [line_nomask] (loader0 pony_null world0) = Running st \<and>
         map actions (trickHeap st) = [0])"
proof -
  have "case load_lines env_seq opt_quiet [line_zero] (loader0 pony_null world0) of
      Running s \<Rightarrow> map actions (trickHeap s) = [0] | Exited n s \<Rightarrow> False | Fault s \<Rightarrow> False"
    by code_simp
  moreover have "case load_lines env_seq opt_quiet [line_nomask] (loader0 pony_null world0) of
      Running s \<Rightarrow> map actions (trickHeap s) = [0] | Exited n s \<Rightarrow> False | Fault s \<Rightarrow> False"
    by code_simp
  ultimately show ?thesis by (blast dest: running_ex)
qed














section \<open>Properties of the worker\<close>

lemma mem_after_snoc: "mem_after m (ws @ [(i, b)]) = (mem_after m ws)(i := b)"
  by (simp add: mem_after_def)

lemma store_sel [simp]:
  "terminus (store c a) = terminus a" "wout (store c a) = wout a"
  "stores (store c a) = stores a @ [(terminus a, c)]"
  by (simp_all add: store_def)

lemma put_char_sel [simp]:
  "terminus (put_char c a) = terminus a + 1" "wout (put_char c a) = wout a"
  "stores (put_char c a) = stores a @ [(terminus a, c)]"
  by (simp_all add: put_char_def)

lemma below_terminus_store [simp]: "below_terminus m (store c a) = below_terminus m a"
  by (simp add: below_terminus_def mem_after_snoc)

lemma below_terminus_put [simp]: "below_terminus m (put_char c a) = below_terminus m a @ [c]"
  by (simp add: below_terminus_def mem_after_snoc)

lemma copy_in_sel:
  "terminus (copy_in s a) = terminus a + length (takeWhile (\<lambda>c. c \<noteq> NUL) s) \<and>
   wout (copy_in s a) = wout a \<and>
   below_terminus m (copy_in s a) = below_terminus m a @ takeWhile (\<lambda>c. c \<noteq> NUL) s"
  by (induction s arbitrary: a) auto


lemma asm_die_Exited: "n \<noteq> 0 \<Longrightarrow> asm_die n opt t a = Exited n (a\<lparr>wout := logx_write n opt t (wout a)\<rparr>)"
  by (simp add: asm_die_def logx_def)

lemma munge_spec_simps [simp]:
  "munge_spec [] = []"
  "munge_spec (c # cs) = (if c = apostrophe then ''%27'' else [c]) @ munge_spec cs"
  by (simp_all add: munge_spec_def)





















text \<open>
  What the amended claim leaves out: after a name that does not end in an apostrophe no
  terminator is stored, so the string runs on into what the array held before (here two
  apostrophes and then a null byte).
\<close>

lemma unterminated_name:
  "\<exists>a. assemble opt_quiet 255 trick_tmp ev_its world0 = Running a \<and>
       mem_after (\<lambda>i. if i = 13 then NUL else apostrophe) (stores a) (terminus a) = apostrophe \<and>
       fileOrFolder_string (mem_after (\<lambda>i. if i = 13 then NUL else apostrophe) (stores a)) 255 =
         Some (''/tmp/it%27s'' @ [apostrophe, apostrophe])"
proof -
  have "case assemble opt_quiet 255 trick_tmp ev_its world0 of
      Running a \<Rightarrow>
        mem_after (\<lambda>i. if i = 13 then NUL else apostrophe) (stores a) (terminus a) = apostrophe \<and>
        fileOrFolder_string (mem_after (\<lambda>i. if i = 13 then NUL else apostrophe) (stores a)) 255 =
          Some (''/tmp/it%27s'' @ [apostrophe, apostrophe])
    | Exited n a \<Rightarrow> False | Fault a \<Rightarrow> False"
    by code_simp
  then show ?thesis by (rule running_ex)
qed

text \<open>
  Claim C5. The test \<open>terminus > maxNameLen\<close> stands inside the loop over the name
  and after the store it guards, and nothing tests the copy of the trick's path. So
  when the path alone has \<open>maxNameLen\<close> bytes or more and the event carries no name,
  the loop body never runs: the worker goes on past the assembly, nothing is logged, and
  the null byte and the slash were stored outside the array, the below_terminus path being
  longer than \<open>maxNameLen\<close>. And when a name ends in an apostrophe that brings
  \<open>terminus\<close> to exactly \<open>maxNameLen\<close>, the null byte that ends \<open>%27\<close> is stored
  at index \<open>maxNameLen\<close>, outside the array, and the test lets it pass (here
  with names of at most 14 bytes, the path \<open>/d\<close> and a name of nine bytes).
\<close>

theorem overflow_check_missed:
  "(fileName p = Some path \<and> NUL \<notin> set path \<and> mx \<le> int (length path) \<and> name ev = NUL # rest \<longrightarrow>
      (\<exists>a. assemble opt mx p ev w = Running a \<and> \<not> in_buffer mx a \<and>
           mx < int (terminus a) \<and> wout a = w)) \<and>
   (\<exists>a. assemble opt_quiet 14 trick_d ev_nine world0 = Running a \<and> \<not> in_buffer 14 a \<and>
        terminus a = 14 \<and> wout a = world0)"
proof (rule conjI)
  show "fileName p = Some path \<and> NUL \<notin> set path \<and> mx \<le> int (length path) \<and> name ev = NUL # rest \<longrightarrow>
      (\<exists>a. assemble opt mx p ev w = Running a \<and> \<not> in_buffer mx a \<and>
           mx < int (terminus a) \<and> wout a = w)"
  proof
    assume h: "fileName p = Some path \<and> NUL \<notin> set path \<and> mx \<le> int (length path) \<and> name ev = NUL # rest"
    let ?a0 = "\<lparr>terminus = 0, stores = [], wout = w\<rparr>"
    let ?a2 = "put_char slash (copy_in path ?a0)"
    from h have run: "assemble opt mx p ev w = Running ?a2" by (simp add: assemble_def)
    from h have "takeWhile (\<lambda>c. c \<noteq> NUL) path = path"
      by (simp add: takeWhile_eq_all_conv) blast
    with copy_in_sel [of path ?a0] have t: "terminus (copy_in path ?a0) = length path"
      and w: "wout (copy_in path ?a0) = w" by simp_all
    from t h have "\<not> in_buffer mx ?a2" by (simp add: in_buffer_def)
    moreover from t h have "mx < int (terminus ?a2)" by simp
    ultimately show "\<exists>a. assemble opt mx p ev w = Running a \<and> \<not> in_buffer mx a \<and>
           mx < int (terminus a) \<and> wout a = w"
      using run w by simp
  qed
next
  have "case assemble opt_quiet 14 trick_d ev_nine world0 of
      Running a \<Rightarrow> \<not> in_buffer 14 a \<and> terminus a = 14 \<and> wout a = world0
    | Exited n a \<Rightarrow> False | Fault a \<Rightarrow> False"
    by code_simp
  then show "\<exists>a. assemble opt_quiet 14 trick_d ev_nine world0 = Running a \<and> \<not> in_buffer 14 a \<and>
        terminus a = 14 \<and> wout a = world0"
    by (rule running_ex)
qed

text \<open>
  A path of 255 bytes where names have at most 255 bytes, and an event on the watched
  object itself: the worker goes on with 256 bytes below_terminus.
\<close>

theorem overflow_check_missed_witness:
  "fileName trick_long = Some (replicate 255 (CHR ''a'')) \<and>
   NUL \<notin> set (replicate 255 (CHR ''a'')) \<and> name ev_self = [NUL] \<and>
   (\<exists>a. assemble opt_quiet 255 trick_long ev_self world0 = Running a \<and> \<not> in_buffer 255 a \<and>
        255 < int (terminus a) \<and> wout a = world0)"
proof -
  have h: "fileName trick_long = Some (replicate 255 (CHR ''a''))"
    "NUL \<notin> set (replicate 255 (CHR ''a''))" "name ev_self = [NUL]"
    "(255::int) \<le> int (length (replicate 255 (CHR ''a'')))"
    by (simp_all add: trick_long_def NUL_def ev_self_def)
  from overflow_check_missed [of trick_long "replicate 255 (CHR ''a'')" 255 ev_self "[]"
      opt_quiet world0] h
  show ?thesis by simp
qed

text \<open>
  What the test does achieve: when the loop over the name has stored anything and the
  worker goes on, \<open>terminus\<close> is at most \<open>maxNameLen\<close>.
\<close>

lemma munge_loop_bound:
  "munge_loop opt mx n i cs a = Running a' \<Longrightarrow> a' \<noteq> a \<Longrightarrow> int (terminus a') \<le> mx"
proof (induction cs arbitrary: i a)
  case Nil
  then show ?case by (simp split: if_splits)
next
  case (Cons c cs)
  show ?case
  proof (cases "i \<le> n \<and> c \<noteq> NUL")
    case False
    with Cons.prems show ?thesis by auto
  next
    case True
    let ?a1 = "if c = apostrophe then copy_in mungeChar a else put_char c a"
    from True Cons.prems have nofatal: "int (terminus ?a1) \<le> mx"
      by (auto simp: Let_def asm_die_Exited split: if_splits)
    with True Cons.prems have run: "munge_loop opt mx n (i + 1) cs ?a1 = Running a'"
      by (auto simp: Let_def split: if_splits)
    show ?thesis
    proof (cases "a' = ?a1")
      case True
      with nofatal show ?thesis by simp
    next
      case False
      from Cons.IH [OF run False] show ?thesis .
    qed
  qed
qed

lemma drain_eq:
  "drain rest m = m\<lparr>bytesMailed := bytesMailed m + length rest, mailslot := mailslot m @ rest\<rparr>"
  by (induction rest arbitrary: m) auto

text \<open>
  Claim C6. When the grandchild writes nothing (the first \<open>getc\<close> returns \<open>EOF\<close>),
  \<open>popen\<close> is never called and nothing is written to the mail transport. When it
  writes at least one byte, \<open>popen\<close> is called once, and on the stream it returns the
  worker writes the headers and then every byte of the output, the first one included;
  \<open>bytesMailed\<close> counts the bytes after the first.
\<close>

theorem silent_on_success_mail:
  "emit_mail ok (mail_headers p fileOrFolder mailTime ev shell command) [] =
     \<lparr>popen_calls = 0, mailslot = [], bytesMailed = 0\<rparr> \<and>
   (fromPipe \<noteq> [] \<longrightarrow>
      popen_calls (emit_mail ok (mail_headers p fileOrFolder mailTime ev shell command) fromPipe) = 1 \<and>
      emit_mail True (mail_headers p fileOrFolder mailTime ev shell command) fromPipe =
        \<lparr>popen_calls = 1,
         mailslot = mail_headers p fileOrFolder mailTime ev shell command @ fromPipe,
         bytesMailed = length fromPipe - 1\<rparr>)"
  by (cases fromPipe) (simp_all add: emit_mail_def drain_eq)

text \<open>
  A script that writes \<open>boom\<close>: one call of \<open>popen\<close>, the headers and \<open>boom\<close> in the
  mail; a script that writes nothing: no call.
\<close>

theorem silent_on_success_mail_witness:
  "''boom'' \<noteq> [] \<and>
   popen_calls (emit_mail True (mail_headers trick_tmp ''/tmp/a'' ''Thu Jan  1 00:00:00 1970''
                  ev_its ''/bin/sh'' ''/s'') ''boom'') = 1 \<and>
   mailslot (emit_mail True (mail_headers trick_tmp ''/tmp/a'' ''Thu Jan  1 00:00:00 1970''
                  ev_its ''/bin/sh'' ''/s'') ''boom'') =
     mail_headers trick_tmp ''/tmp/a'' ''Thu Jan  1 00:00:00 1970'' ev_its ''/bin/sh'' ''/s'' @ ''boom'' \<and>
   popen_calls (emit_mail True (mail_headers trick_tmp ''/tmp/a'' ''Thu Jan  1 00:00:00 1970''
                  ev_its ''/bin/sh'' ''/s'') []) = 0"
  using silent_on_success_mail [of True trick_tmp "''/tmp/a''" "''Thu Jan  1 00:00:00 1970''"
      ev_its "''/bin/sh''" "''/s''" "''boom''"]
  by simp

text \<open>
  Claim C7. For \<open>-s\<close> without an argument \<open>getopt\<close> returns \<open>':'\<close>, and that case
  sets \<open>opt.sloglev = 3\<close> but leaves \<open>opt.syslog\<close> at 0: \<open>logx\<close>, which tests
  \<open>opt.syslog == 1\<close>, hands nothing to \<open>syslog\<close>. The case for \<open>-s 3\<close> sets
  \<open>opt.syslog = 1\<close>, and \<open>logx\<close> then duplicates every line at priority 3.
\<close>

theorem syslog_default_not_enabled:
  "(\<exists>g. gig_opts [''-s''] = Running g \<and> syslog (go g) = 0 \<and> sloglev (go g) = 3 \<and>
        syslog_lines (logx_write xstatus (go g) logtxt w) = syslog_lines w) \<and>
   (\<exists>g. gig_opts [''-s'', ''3''] = Running g \<and> syslog (go g) = 1 \<and> sloglev (go g) = 3 \<and>
        syslog_lines (logx_write xstatus (go g) logtxt w) = syslog_lines w @ [(3, logtxt)])"
proof -
  have "case gig_opts [''-s''] of
      Running g \<Rightarrow> syslog (go g) = 0 \<and> sloglev (go g) = 3 | Exited n g \<Rightarrow> False | Fault g \<Rightarrow> False"
    by code_simp
  then obtain g where g: "gig_opts [''-s''] = Running g" "syslog (go g) = 0" "sloglev (go g) = 3"
    by (blast dest: running_ex)
  have "case gig_opts [''-s'', ''3''] of
      Running g \<Rightarrow> syslog (go g) = 1 \<and> sloglev (go g) = 3 | Exited n g \<Rightarrow> False | Fault g \<Rightarrow> False"
    by code_simp
  then obtain h where h: "gig_opts [''-s'', ''3''] = Running h" "syslog (go h) = 1" "sloglev (go h) = 3"
    by (blast dest: running_ex)
  from g have "syslog_lines (logx_write xstatus (go g) logtxt w) = syslog_lines w"
    by (simp add: logx_write_sel)
  moreover from h have "syslog_lines (logx_write xstatus (go h) logtxt w) = syslog_lines w @ [(3, logtxt)]"
    by (simp add: logx_write_sel)
  ultimately show ?thesis using g h by blast
qed

lemma strcpy_stores_snoc:
  "strcpy_stores s = zip [0..<length s] s @ [(length s, NUL)]"
  by (simp add: strcpy_stores_def)

lemma all_below: "list_all (\<lambda>i. i < cap) [0..<n] = (n \<le> cap)"
  by (induction n) auto

lemma fits_strcpy: "fits cap (strcpy_stores s) = (length s < cap)"
proof -
  have "list_all (\<lambda>iv. fst iv < cap) (zip [0..<length s] s) =
        list_all (\<lambda>i. i < cap) (map fst (zip [0..<length s] s))"
    by (simp only: list.pred_map o_def)
  also have "\<dots> = (length s \<le> cap)" by (simp add: all_below)
  finally show ?thesis by (auto simp: fits_def strcpy_stores_snoc)
qed

lemma getopt_with_arg:
  "is_option c \<Longrightarrow> takes_arg c \<Longrightarrow> getopt_all [[CHR ''-'', c], a] = ([WithArg c a], [])"
  by (auto simp: is_option_def)

lemma getopt_positional:
  "a \<noteq> [] \<Longrightarrow> hd a \<noteq> CHR ''-'' \<Longrightarrow> getopt_all [a] = ([], [a])"
  by (cases a) auto

lemma guarded_copy_edge:
  "length a = cap \<Longrightarrow> guarded_copy cap m a f g = Fault g"
  by (simp add: guarded_copy_def fits_strcpy)

text \<open>
  Claim C10. The guards before the copies into \<open>opt.config\<close>, \<open>opt.logfile\<close> and
  \<open>opt.pidfile\<close> refuse a name only when it is longer than the array. A name of
  exactly the array's length (256, 256, 128) passes the guard, and \<open>strcpy\<close> then makes
  one store more than the name has bytes, the last of them (the null byte) at the index
  equal to the array's length, that is outside it: the call of \<open>gig_opts\<close> ends in
  a fault, for \<open>-c\<close>, for a configuration file named without \<open>-c\<close>, for \<open>-l\<close> and
  for \<open>-p\<close>.
\<close>

theorem option_buffer_off_by_one:
  "(length a = MAX_CONFIG_NAME_LEN \<longrightarrow>
      \<not> MAX_CONFIG_NAME_LEN < length a \<and>
      length (strcpy_stores a) = length a + 1 \<and>
      last (strcpy_stores a) = (MAX_CONFIG_NAME_LEN, NUL) \<and>
      \<not> fits MAX_CONFIG_NAME_LEN (strcpy_stores a) \<and>
      gig_opts [''-c'', a] = Fault gig0 \<and>
      (hd a \<noteq> CHR ''-'' \<longrightarrow> gig_opts [a] = Fault gig0)) \<and>
   (length a = MAX_LOG_NAME_LEN \<longrightarrow>
      \<not> MAX_LOG_NAME_LEN < length a \<and>
      last (strcpy_stores a) = (MAX_LOG_NAME_LEN, NUL) \<and>
      \<not> fits MAX_LOG_NAME_LEN (strcpy_stores a) \<and>
      gig_opts [''-l'', a] = Fault gig0) \<and>
   (length a = MAX_PID_NAME_LEN \<longrightarrow>
      \<not> MAX_PID_NAME_LEN < length a \<and>
      last (strcpy_stores a) = (MAX_PID_NAME_LEN, NUL) \<and>
      \<not> fits MAX_PID_NAME_LEN (strcpy_stores a) \<and>
      gig_opts [''-p'', a] = Fault gig0)"
proof -
  have opts: "is_option (CHR ''c'')" "takes_arg (CHR ''c'')" "is_option (CHR ''l'')"
    "takes_arg (CHR ''l'')" "is_option (CHR ''p'')" "takes_arg (CHR ''p'')"
    by (simp_all add: is_option_def takes_arg_def)
  have c: "gig_opts [''-c'', a] = Fault gig0" if "length a = MAX_CONFIG_NAME_LEN"
    using that getopt_with_arg [OF opts(1,2), of a]
    by (simp add: gig_opts_def gig_case_def guarded_copy_edge)
  have l: "gig_opts [''-l'', a] = Fault gig0" if "length a = MAX_LOG_NAME_LEN"
    using that getopt_with_arg [OF opts(3,4), of a]
    by (simp add: gig_opts_def gig_case_def guarded_copy_edge)
  have p: "gig_opts [''-p'', a] = Fault gig0" if "length a = MAX_PID_NAME_LEN"
    using that getopt_with_arg [OF opts(5,6), of a]
    by (simp add: gig_opts_def gig_case_def guarded_copy_edge)
  have pos: "gig_opts [a] = Fault gig0" if "length a = MAX_CONFIG_NAME_LEN" "hd a \<noteq> CHR ''-''"
  proof -
    from that(1) have "a \<noteq> []" by (auto simp: MAX_CONFIG_NAME_LEN_def)
    from getopt_positional [OF this that(2)] that(1) show ?thesis
      by (simp add: gig_opts_def positional_def guarded_copy_edge)
  qed
  have last: "last (strcpy_stores a) = (length a, NUL)" by (simp add: strcpy_stores_snoc)
  have len: "length (strcpy_stores a) = length a + 1" by (simp add: strcpy_stores_def)
  from c l p pos last len show ?thesis by (auto simp: fits_strcpy)
qed

text \<open>
  Names of 256 and of 128 times the letter \<open>x\<close>.
\<close>

theorem option_buffer_off_by_one_witness:
  "length (replicate 256 (CHR ''x'')) = MAX_CONFIG_NAME_LEN \<and>
   length (replicate 128 (CHR ''x'')) = MAX_PID_NAME_LEN \<and>
   hd (replicate 256 (CHR ''x'')) \<noteq> CHR ''-'' \<and>
   gig_opts [''-c'', replicate 256 (CHR ''x'')] = Fault gig0 \<and>
   gig_opts [replicate 256 (CHR ''x'')] = Fault gig0 \<and>
   gig_opts [''-l'', replicate 256 (CHR ''x'')] = Fault gig0 \<and>
   gig_opts [''-p'', replicate 128 (CHR ''x'')] = Fault gig0 \<and>
   last (strcpy_stores (replicate 128 (CHR ''x''))) = (128, NUL)"
proof -
  have h: "length (replicate 256 (CHR ''x'')) = MAX_CONFIG_NAME_LEN"
    "length (replicate 256 (CHR ''x'')) = MAX_LOG_NAME_LEN"
    "length (replicate 128 (CHR ''x'')) = MAX_PID_NAME_LEN"
    by (simp_all add: MAX_CONFIG_NAME_LEN_def MAX_LOG_NAME_LEN_def MAX_PID_NAME_LEN_def)
  have hd: "hd (replicate 256 (CHR ''x'')) \<noteq> CHR ''-''"
    by (simp add: hd_replicate)
  from option_buffer_off_by_one [of "replicate 256 (CHR ''x'')"] h hd
  have A: "gig_opts [''-c'', replicate 256 (CHR ''x'')] = Fault gig0 \<and>
   gig_opts [replicate 256 (CHR ''x'')] = Fault gig0 \<and>
   gig_opts [''-l'', replicate 256 (CHR ''x'')] = Fault gig0"
    by blast
  from option_buffer_off_by_one [of "replicate 128 (CHR ''x'')"] h(3)
  have B: "gig_opts [''-p'', replicate 128 (CHR ''x'')] = Fault gig0 \<and>
   last (strcpy_stores (replicate 128 (CHR ''x''))) = (MAX_PID_NAME_LEN, NUL)"
    by blast
  from A B h hd show ?thesis by (simp add: MAX_PID_NAME_LEN_def)
qed

end
